theory Spec2Isabelle
  imports Complex_Main "HOL-Library.Word" "HOL-Library.AList"
begin

section \<open>Data model\<close>

text \<open>
  The script works on \<open>Uint8Array\<close> and \<open>ArrayBuffer\<close> values, modelled as lists of
  8-bit words, and on JavaScript strings.  Every string that occurs here is produced by
  \<open>TextDecoder\<close> or by \<open>String.fromCharCode\<close> on a byte, hence is well formed; it is
  modelled as the list of its code points.  Its \<open>length\<close> property counts UTF-16 code
  units, so a code point above \<open>0xFFFF\<close> counts twice.
\<close>

type_synonym byte = "8 word"
type_synonym jsstring = "nat list"

definition js_length :: "jsstring \<Rightarrow> nat" where
  "js_length s = (\<Sum>c\<leftarrow>s. if c < 0x10000 then 1 else 2)"

text \<open>Exceptions that the two functions can meet.\<close>

datatype js_exception =
    RangeError          \<comment> \<open>\<open>DataView.getUint8\<close> outside the buffer\<close>
  | NoValidFilesError   \<comment> \<open>the \<open>Error\<close> thrown at line 780\<close>
  | TarExtractError     \<comment> \<open>the \<open>Error\<close> thrown by the \<open>catch\<close> block at line 785\<close>

section \<open>The platform decoders used by \<open>smartDecodeFileName\<close>\<close>

text \<open>
  \<open>new TextDecoder('ascii')\<close> and \<open>new TextDecoder('latin1')\<close>: in the Encoding standard both
  labels name windows-1252, a single-byte decoder that never fails.  Bytes below \<open>0x80\<close>
  and from \<open>0xA0\<close> on decode to the code point of the same value; the 32 bytes between
  follow the index below.
\<close>

definition windows1252_high :: "nat list" where
  "windows1252_high =
    [0x20AC, 0x0081, 0x201A, 0x0192, 0x201E, 0x2026, 0x2020, 0x2021,
     0x02C6, 0x2030, 0x0160, 0x2039, 0x0152, 0x008D, 0x017D, 0x008F,
     0x0090, 0x2018, 0x2019, 0x201C, 0x201D, 0x2022, 0x2013, 0x2014,
     0x02DC, 0x2122, 0x0161, 0x203A, 0x0153, 0x009D, 0x017E, 0x0178]"

definition windows1252_char :: "byte \<Rightarrow> nat" where
  "windows1252_char b =
    (if unat b < 0x80 \<or> 0xA0 \<le> unat b then unat b else windows1252_high ! (unat b - 0x80))"

definition decode_windows1252 :: "byte list \<Rightarrow> jsstring" where
  "decode_windows1252 bytes = map windows1252_char bytes"

text \<open>
  \<open>new TextDecoder('utf-8', { fatal: true })\<close>: the UTF-8 decoder of the Encoding standard.
  A lead byte fixes the number of continuation bytes and the range allowed for the first
  of them; any other byte, and the end of the input inside a sequence, is an error, which
  in fatal mode makes \<open>decode\<close> throw (\<open>None\<close>).
\<close>

definition utf8_cont :: "nat \<Rightarrow> nat \<Rightarrow> nat \<Rightarrow> bool" where
  "utf8_cont lower upper b = (lower \<le> b \<and> b \<le> upper)"

fun utf8_decoder :: "nat list \<Rightarrow> jsstring option" where
  "utf8_decoder [] = Some []"
| "utf8_decoder (b # bs) =
    (if b \<le> 0x7F then map_option ((#) b) (utf8_decoder bs)
     else if 0xC2 \<le> b \<and> b \<le> 0xDF then
       (case bs of
          c1 # rest \<Rightarrow>
            if utf8_cont 0x80 0xBF c1
            then map_option ((#) ((b - 0xC0) * 64 + (c1 - 0x80))) (utf8_decoder rest)
            else None
        | _ \<Rightarrow> None)
     else if 0xE0 \<le> b \<and> b \<le> 0xEF then
       (case bs of
          c1 # c2 # rest \<Rightarrow>
            if utf8_cont (if b = 0xE0 then 0xA0 else 0x80) (if b = 0xED then 0x9F else 0xBF) c1
               \<and> utf8_cont 0x80 0xBF c2
            then map_option ((#) (((b - 0xE0) * 64 + (c1 - 0x80)) * 64 + (c2 - 0x80)))
                   (utf8_decoder rest)
            else None
        | _ \<Rightarrow> None)
     else if 0xF0 \<le> b \<and> b \<le> 0xF4 then
       (case bs of
          c1 # c2 # c3 # rest \<Rightarrow>
            if utf8_cont (if b = 0xF0 then 0x90 else 0x80) (if b = 0xF4 then 0x8F else 0xBF) c1
               \<and> utf8_cont 0x80 0xBF c2 \<and> utf8_cont 0x80 0xBF c3
            then map_option
                   ((#) ((((b - 0xF0) * 64 + (c1 - 0x80)) * 64 + (c2 - 0x80)) * 64 + (c3 - 0x80)))
                   (utf8_decoder rest)
            else None
        | _ \<Rightarrow> None)
     else None)"

text \<open>
  \<open>TextDecoder.decode\<close> with the default \<open>ignoreBOM: false\<close> drops a byte order mark: when
  the first decoded code point is \<open>U+FEFF\<close> it is not part of the result.
\<close>

definition strip_bom :: "jsstring \<Rightarrow> jsstring" where
  "strip_bom s = (case s of c # rest \<Rightarrow> if c = 0xFEFF then rest else s | [] \<Rightarrow> [])"

definition decode_utf8_fatal :: "byte list \<Rightarrow> jsstring option" where
  "decode_utf8_fatal bytes = map_option strip_bom (utf8_decoder (map unat bytes))"

text \<open>
  The decoders for the legacy encodings depend on index tables of the platform with tens
  of thousands of entries.  They are a parameter: \<open>td label bytes\<close> is the result of
  \<open>new TextDecoder(label).decode(bytes)\<close>, or \<open>None\<close> when that throws (a platform without
  the encoding), which the \<open>catch\<close> at line 61 turns into \<open>continue\<close>.
\<close>

type_synonym text_decoder = "string \<Rightarrow> byte list \<Rightarrow> jsstring option"

section \<open>\<open>smartDecodeFileName\<close> (lines 28 to 68)\<close>

text \<open>Lines 30 to 36: the loop leaves \<open>isAscii\<close> true when no byte exceeds 127.\<close>

definition isAscii :: "byte list \<Rightarrow> bool" where
  "isAscii bytes = list_all (\<lambda>b. \<not> b > 127) bytes"

text \<open>Line 57: the number of occurrences of the replacement character \<open>U+FFFD\<close>.\<close>

definition replacementCount :: "jsstring \<Rightarrow> nat" where
  "replacementCount decoded = length (filter (\<lambda>c. c = 0xFFFD) decoded)"

text \<open>
  Line 58: \<open>replacementCount / decoded.length < 0.1\<close>.  For an empty string the quotient
  is \<open>0 / 0 = NaN\<close>, and every comparison with \<open>NaN\<close> is false.  Otherwise the quotient of
  two integers below \<open>2^53\<close> is rounded to the nearest double and compared with the double
  nearest to one tenth, which decides the same as the comparison of the exact values.
\<close>

definition few_replacements :: "jsstring \<Rightarrow> bool" where
  "few_replacements decoded =
    (if js_length decoded = 0 then False
     else real (replacementCount decoded) / real (js_length decoded) < 1 / 10)"

definition encodings :: "string list" where
  "encodings = [''gbk'', ''gb2312'', ''big5'', ''shift-jis'']"

text \<open>Lines 52 to 64: \<open>Some\<close> is the \<open>return decoded\<close> of line 59.\<close>

fun try_encodings :: "text_decoder \<Rightarrow> string list \<Rightarrow> byte list \<Rightarrow> jsstring option" where
  "try_encodings td [] bytes = None"
| "try_encodings td (encoding # rest) bytes =
    (case td encoding bytes of
       None \<Rightarrow> try_encodings td rest bytes
     | Some decoded \<Rightarrow>
         if few_replacements decoded then Some decoded else try_encodings td rest bytes)"

definition smartDecodeFileName :: "text_decoder \<Rightarrow> byte list \<Rightarrow> jsstring" where
  "smartDecodeFileName td bytes =
    (if isAscii bytes then decode_windows1252 bytes
     else case decode_utf8_fatal bytes of
       Some decoded \<Rightarrow> decoded
     | None \<Rightarrow>
         (case try_encodings td encodings bytes of
            Some decoded \<Rightarrow> decoded
          | None \<Rightarrow> decode_windows1252 bytes))"

section \<open>\<open>extractTar\<close> (lines 706 to 787)\<close>

subsection \<open>Helpers of the platform\<close>

text \<open>\<open>DataView.getUint8\<close> throws a \<open>RangeError\<close> for an index outside the buffer.\<close>

definition getUint8 :: "byte list \<Rightarrow> int \<Rightarrow> js_exception + byte" where
  "getUint8 view i =
    (if 0 \<le> i \<and> i < int (length view) then Inr (view ! nat i) else Inl RangeError)"

text \<open>
  \<open>ArrayBuffer.slice(begin, end)\<close> for \<open>begin \<ge> 0\<close>, the only case that line 760 reaches:
  both bounds are clamped to the length of the buffer, and it never throws.
\<close>

definition buffer_slice :: "byte list \<Rightarrow> int \<Rightarrow> int \<Rightarrow> byte list" where
  "buffer_slice buf begin end = take (nat (end - begin)) (drop (nat begin) buf)"

text \<open>
  \<open>String.prototype.trim\<close> removes white space and line terminators at both ends;
  \<open>parseInt\<close> skips them at the start.
\<close>

definition js_whitespace :: "nat \<Rightarrow> bool" where
  "js_whitespace c =
    (c \<in> {0x9, 0xA, 0xB, 0xC, 0xD, 0x20, 0xA0, 0x1680, 0x2028, 0x2029, 0x202F, 0x205F,
           0x3000, 0xFEFF} \<or> (0x2000 \<le> c \<and> c \<le> 0x200A))"

definition trim :: "jsstring \<Rightarrow> jsstring" where
  "trim s = rev (dropWhile js_whitespace (rev (dropWhile js_whitespace s)))"

definition octal_digit :: "nat \<Rightarrow> bool" where
  "octal_digit c = (0x30 \<le> c \<and> c \<le> 0x37)"

definition octal_value :: "jsstring \<Rightarrow> int" where
  "octal_value ds = foldl (\<lambda>acc c. acc * 8 + (int c - 0x30)) 0 ds"

text \<open>
  \<open>parseInt(s, 8)\<close>: leading white space, an optional sign, then the longest run of octal
  digits; \<open>None\<close> stands for \<open>NaN\<close>, the result when that run is empty.  At most twelve
  digits are read here, so the value is exact.
\<close>

definition parseInt8 :: "jsstring \<Rightarrow> int option" where
  "parseInt8 s =
    (let s1 = dropWhile js_whitespace s;
         sign = (if s1 \<noteq> [] \<and> hd s1 = 0x2D then - 1 else 1);
         s2 = (if s1 \<noteq> [] \<and> (hd s1 = 0x2B \<or> hd s1 = 0x2D) then tl s1 else s1);
         z = takeWhile octal_digit s2
     in if z = [] then None else Some (sign * octal_value z))"

text \<open>\<open>Math.ceil(fileSize / 512) * 512\<close>; the division by a power of two is exact.\<close>

definition ceil512 :: "int \<Rightarrow> int" where
  "ceil512 fileSize = \<lceil>real_of_int fileSize / 512\<rceil> * 512"

text \<open>\<open>fileName.endsWith('/')\<close> and \<open>fileName.split('/').pop()\<close>.\<close>

definition endsWith_slash :: "jsstring \<Rightarrow> bool" where
  "endsWith_slash s = (s \<noteq> [] \<and> last s = 0x2F)"

definition basename :: "jsstring \<Rightarrow> jsstring" where
  "basename s = rev (takeWhile (\<lambda>c. c \<noteq> 0x2F) (rev s))"

subsection \<open>State\<close>

text \<open>
  The objects stored in \<open>extractedFiles\<close>.  The \<open>Blob\<close> is its bytes; the field \<open>type\<close>,
  a table lookup on the extension, plays no part in what follows and is left out.
\<close>

record entry =
  name :: jsstring
  path :: jsstring
  size_field :: nat
  content :: "byte list"

text \<open>
  \<open>extractedFiles\<close> is a global plain object used as a dictionary from paths to entries.
  It is modelled by its own properties, in the order in which \<open>Object.keys\<close> lists them:
  first the array indices (canonical decimal numerals below \<open>2^32 - 1\<close>) in ascending
  order, then the other names in the order of their creation.
\<close>

definition decimal_digit :: "nat \<Rightarrow> bool" where
  "decimal_digit c = (0x30 \<le> c \<and> c \<le> 0x39)"

definition decimal_value :: "jsstring \<Rightarrow> nat" where
  "decimal_value ds = foldl (\<lambda>acc c. acc * 10 + (c - 0x30)) 0 ds"

definition array_index :: "jsstring \<Rightarrow> nat option" where
  "array_index k =
    (if k \<noteq> [] \<and> list_all decimal_digit k \<and> (hd k \<noteq> 0x30 \<or> k = [0x30])
        \<and> decimal_value k < 4294967295
     then Some (decimal_value k) else None)"

fun insert_index :: "nat \<Rightarrow> jsstring \<Rightarrow> 'v \<Rightarrow> (jsstring \<times> 'v) list \<Rightarrow> (jsstring \<times> 'v) list" where
  "insert_index n k v [] = [(k, v)]"
| "insert_index n k v ((k', v') # rest) =
    (case array_index k' of
       Some m \<Rightarrow> if m < n then (k', v') # insert_index n k v rest else (k, v) # (k', v') # rest
     | None \<Rightarrow> (k, v) # (k', v') # rest)"

text \<open>
  The assignment \<open>extractedFiles[k] = v\<close> of line 763, with an object \<open>v\<close>.  For the name
  \<open>__proto__\<close> it calls the setter inherited from \<open>Object.prototype\<close>: the prototype of
  \<open>extractedFiles\<close> becomes \<open>v\<close> and no own property is created.  (The prototype is not
  part of the model: the entries have only data properties, so it changes neither a later
  assignment nor \<open>Object.keys\<close>.)  For any other name the value of an existing key is
  replaced in place, and a new key takes its place in the order above.
\<close>

definition proto_name :: jsstring where
  "proto_name = [95, 95, 112, 114, 111, 116, 111, 95, 95]"

definition js_set :: "jsstring \<Rightarrow> 'v \<Rightarrow> (jsstring \<times> 'v) list \<Rightarrow> (jsstring \<times> 'v) list" where
  "js_set k v obj =
    (if k = proto_name then obj
     else case map_of obj k of
       Some old \<Rightarrow> AList.update k v obj
     | None \<Rightarrow>
         (case array_index k of
            Some n \<Rightarrow> insert_index n k v obj
          | None \<Rightarrow> obj @ [(k, v)]))"

text \<open>The loop changes the object together with the locals \<open>offset\<close> and \<open>processedFiles\<close>.\<close>

record tar_state =
  offset :: int
  processedFiles :: nat
  extractedFiles :: "(jsstring \<times> entry) list"

datatype loop_step = Break tar_state | Next tar_state

subsection \<open>The three inner loops\<close>

text \<open>Lines 717 to 723.\<close>

function isEnd_loop :: "byte list \<Rightarrow> int \<Rightarrow> nat \<Rightarrow> js_exception + bool" where
  "isEnd_loop view off i =
    (if i < 512 \<and> off + int i < int (length view) then
       (case getUint8 view (off + int i) of
          Inl e \<Rightarrow> Inl e
        | Inr b \<Rightarrow> if b \<noteq> 0 then Inr False else isEnd_loop view off (i + 1))
     else Inr True)"
  by pat_completeness auto
termination
  by (relation "measure (\<lambda>(view, off, i). 512 - i)") auto

declare isEnd_loop.simps [simp del]

text \<open>
  Lines 727 to 734; the result is \<open>fileNameBytes.slice(0, fileNameLength)\<close>, the bytes
  stored so far.
\<close>

function fileName_loop :: "byte list \<Rightarrow> int \<Rightarrow> nat \<Rightarrow> byte list \<Rightarrow> js_exception + byte list" where
  "fileName_loop view off i fileNameBytes =
    (if i < 100 then
       (case getUint8 view (off + int i) of
          Inl e \<Rightarrow> Inl e
        | Inr b \<Rightarrow>
            if b = 0 then Inr fileNameBytes
            else fileName_loop view off (i + 1) (fileNameBytes @ [b]))
     else Inr fileNameBytes)"
  by pat_completeness auto
termination
  by (relation "measure (\<lambda>(view, off, i, acc). 100 - i)") auto

declare fileName_loop.simps [simp del]

text \<open>Lines 742 to 747; \<open>String.fromCharCode(byte)\<close> is the code point of the byte's value.\<close>

function sizeStr_loop :: "byte list \<Rightarrow> int \<Rightarrow> nat \<Rightarrow> jsstring \<Rightarrow> js_exception + jsstring" where
  "sizeStr_loop view off i sizeStr =
    (if i < 136 then
       (case getUint8 view (off + int i) of
          Inl e \<Rightarrow> Inl e
        | Inr b \<Rightarrow>
            if b = 0 \<or> b = 32 then Inr sizeStr
            else sizeStr_loop view off (i + 1) (sizeStr @ [unat b]))
     else Inr sizeStr)"
  by pat_completeness auto
termination
  by (relation "measure (\<lambda>(view, off, i, acc). 136 - i)") auto

declare sizeStr_loop.simps [simp del]

subsection \<open>One iteration of the \<open>while\<close> loop (lines 716 to 776)\<close>

text \<open>Line 749: \<open>parseInt(sizeStr.trim(), 8) || 0\<close>; \<open>NaN\<close> and zero are falsy.\<close>

definition fileSize_of :: "jsstring \<Rightarrow> int" where
  "fileSize_of sizeStr = (case parseInt8 (trim sizeStr) of None \<Rightarrow> 0 | Some n \<Rightarrow> n)"

text \<open>The condition of line 758.\<close>

definition regular_file :: "jsstring \<Rightarrow> int \<Rightarrow> byte \<Rightarrow> bool" where
  "regular_file fileName fileSize fileType =
     (fileSize > 0 \<and> \<not> endsWith_slash fileName \<and> (fileType = 0 \<or> fileType = 48))"

text \<open>
  Lines 758 to 773, after \<open>offset += 512\<close>.  The call of \<open>updateProgress\<close> only changes
  the page and is left out.
\<close>

definition emit :: "byte list \<Rightarrow> jsstring \<Rightarrow> int \<Rightarrow> byte \<Rightarrow> tar_state \<Rightarrow> tar_state" where
  "emit buf fileName fileSize fileType st =
    (if regular_file fileName fileSize fileType then
       let fileData = buffer_slice buf (offset st) (offset st + fileSize) in
       st\<lparr>extractedFiles :=
            js_set fileName
              \<lparr>name = basename fileName, path = fileName, size_field = length fileData,
               content = fileData\<rparr>
              (extractedFiles st),
          processedFiles := processedFiles st + 1\<rparr>
     else st)"

definition iteration :: "text_decoder \<Rightarrow> byte list \<Rightarrow> tar_state \<Rightarrow> js_exception + loop_step" where
  "iteration td buf st =
    (case isEnd_loop buf (offset st) 0 of
       Inl e \<Rightarrow> Inl e
     | Inr isEnd \<Rightarrow>
         if isEnd then Inr (Break st)
         else
           (case fileName_loop buf (offset st) 0 [] of
              Inl e \<Rightarrow> Inl e
            | Inr fileNameBytes \<Rightarrow>
                let fileName = smartDecodeFileName td fileNameBytes in
                if fileName = [] then Inr (Break st)
                else
                  (case sizeStr_loop buf (offset st) 124 [] of
                     Inl e \<Rightarrow> Inl e
                   | Inr sizeStr \<Rightarrow>
                       let fileSize = fileSize_of sizeStr in
                       (case getUint8 buf (offset st + 156) of
                          Inl e \<Rightarrow> Inl e
                        | Inr fileType \<Rightarrow>
                            let st1 = st\<lparr>offset := offset st + 512\<rparr>;
                                st2 = emit buf fileName fileSize fileType st1
                            in Inr (Next (st2\<lparr>offset := offset st2 + ceil512 fileSize\<rparr>))))))"

subsection \<open>The loop and the function\<close>

text \<open>The state at the start of the loop (lines 710 and 711).\<close>

definition initial_state :: "(jsstring \<times> entry) list \<Rightarrow> tar_state" where
  "initial_state files = \<lparr>offset = 0, processedFiles = 0, extractedFiles = files\<rparr>"

text \<open>
  Line 715.  Nothing in the source bounds the number of iterations, so the loop is a
  partial function: \<open>None\<close> means that it runs forever.
\<close>

partial_function (option) scan :: "text_decoder \<Rightarrow> byte list \<Rightarrow> tar_state \<Rightarrow> (js_exception + tar_state) option" where
  "scan td buf st =
    (if offset st < int (length buf) - 512 then
       (case iteration td buf st of
          Inl e \<Rightarrow> Some (Inl e)
        | Inr (Break st') \<Rightarrow> Some (Inr st')
        | Inr (Next st') \<Rightarrow> scan td buf st')
     else Some (Inr st))"

declare scan.simps [code]

text \<open>
  Lines 707 to 786.  The argument \<open>files\<close> is the value of the global \<open>extractedFiles\<close> at
  the call; \<open>extractArchive\<close>, the only caller, resets it to the empty object first
  (line 585).  Every exception of the \<open>try\<close> block is replaced by the one of line 785.
  The result is the global after the call.
\<close>

definition try_block :: "text_decoder \<Rightarrow> (jsstring \<times> entry) list \<Rightarrow> byte list \<Rightarrow> (js_exception + tar_state) option" where
  "try_block td files buf =
    (case scan td buf (initial_state files) of
       None \<Rightarrow> None
     | Some (Inl e) \<Rightarrow> Some (Inl e)
     | Some (Inr st) \<Rightarrow>
         if length (map fst (extractedFiles st)) = 0 then Some (Inl NoValidFilesError)
         else Some (Inr st))"

definition extractTar :: "text_decoder \<Rightarrow> (jsstring \<times> entry) list \<Rightarrow> byte list \<Rightarrow> (js_exception + (jsstring \<times> entry) list) option" where
  "extractTar td files buf =
    (case try_block td files buf of
       None \<Rightarrow> None
     | Some (Inl e) \<Rightarrow> Some (Inl TarExtractError)
     | Some (Inr st) \<Rightarrow> Some (Inr (extractedFiles st)))"

section \<open>The header fields as list operations\<close>

text \<open>
  What the three inner loops and the read of the type flag compute when the whole block
  lies inside the buffer (proved below): the block at \<open>off\<close> is all zero; the first 100
  bytes up to the first NUL; the bytes 124 to 135 up to the first NUL or space, as
  characters; the byte 156.
\<close>

definition zero_block :: "byte list \<Rightarrow> nat \<Rightarrow> bool" where
  "zero_block buf off = list_all (\<lambda>b. b = 0) (take 512 (drop off buf))"

definition header_name :: "byte list \<Rightarrow> nat \<Rightarrow> byte list" where
  "header_name buf off = takeWhile (\<lambda>b. b \<noteq> 0) (take 100 (drop off buf))"

definition header_sizeStr :: "byte list \<Rightarrow> nat \<Rightarrow> jsstring" where
  "header_sizeStr buf off =
     map unat (takeWhile (\<lambda>b. b \<noteq> 0 \<and> b \<noteq> 32) (take 12 (drop (off + 124) buf)))"

definition header_type :: "byte list \<Rightarrow> nat \<Rightarrow> byte" where
  "header_type buf off = buf ! (off + 156)"

definition header_fileName :: "text_decoder \<Rightarrow> byte list \<Rightarrow> nat \<Rightarrow> jsstring" where
  "header_fileName td buf off = smartDecodeFileName td (header_name buf off)"

definition header_fileSize :: "byte list \<Rightarrow> nat \<Rightarrow> int" where
  "header_fileSize buf off = fileSize_of (header_sizeStr buf off)"

section \<open>The UTF-8 encoding of a string\<close>

text \<open>
  The encoding that \<open>TextEncoder\<close> produces for a well-formed string: one to four bytes
  for each scalar value, that is each code point below \<open>0x110000\<close> that is not a surrogate.
\<close>

definition scalar_value :: "nat \<Rightarrow> bool" where
  "scalar_value c = (c < 0x110000 \<and> \<not> (0xD800 \<le> c \<and> c \<le> 0xDFFF))"

definition utf8_encode_char :: "nat \<Rightarrow> nat list" where
  "utf8_encode_char c =
    (if c < 0x80 then [c]
     else if c < 0x800 then [0xC0 + c div 64, 0x80 + c mod 64]
     else if c < 0x10000 then [0xE0 + c div 4096, 0x80 + c div 64 mod 64, 0x80 + c mod 64]
     else [0xF0 + c div 262144, 0x80 + c div 4096 mod 64, 0x80 + c div 64 mod 64,
           0x80 + c mod 64])"

definition utf8_encode :: "jsstring \<Rightarrow> byte list" where
  "utf8_encode s = map of_nat (concat (map utf8_encode_char s))"

section \<open>Concrete inputs\<close>

text \<open>
  A header block with the given name, size field and type flag; every other field is
  zero, which the parser does not look at.
\<close>

definition tar_header :: "byte list \<Rightarrow> byte list \<Rightarrow> byte \<Rightarrow> byte list" where
  "tar_header nm sz ty =
     nm @ replicate (124 - length nm) 0 @ sz @ replicate (32 - length sz) 0 @ [ty] @ replicate 355 0"

text \<open>The names \<open>a.txt\<close> and \<open>b\<close>, and the content \<open>hello\<close>.\<close>

definition a_txt :: "byte list" where
  "a_txt = [97, 46, 116, 120, 116]"

definition b_name :: "byte list" where
  "b_name = [98]"

definition hello :: "byte list" where
  "hello = [104, 101, 108, 108, 111]"

text \<open>The size fields \<open>00000000005\<close>, \<open>00000001000\<close>, \<open>-1000\<close>, \<open>-4000\<close> and \<open>zz\<close>.\<close>

definition size_5 :: "byte list" where
  "size_5 = [48, 48, 48, 48, 48, 48, 48, 48, 48, 48, 53]"

definition size_512 :: "byte list" where
  "size_512 = [48, 48, 48, 48, 48, 48, 48, 49, 48, 48, 48]"

definition size_minus_512 :: "byte list" where
  "size_minus_512 = [45, 49, 48, 48, 48]"

definition size_minus_2048 :: "byte list" where
  "size_minus_2048 = [45, 52, 48, 48, 48]"

definition size_garbage :: "byte list" where
  "size_garbage = [122, 122]"

text \<open>
  One file \<open>a.txt\<close> of 5 bytes, its content padded to a block, and one zero block:
  1536 bytes.
\<close>

definition archive_hello :: "byte list" where
  "archive_hello = tar_header a_txt size_5 48 @ hello @ replicate 507 0 @ replicate 512 0"

text \<open>A header whose size field reads \<open>-1000\<close>, and one zero block: 1024 bytes.\<close>

definition archive_negative :: "byte list" where
  "archive_negative = tar_header a_txt size_minus_512 48 @ replicate 512 0"

text \<open>A buffer that is one header block and nothing else: 512 bytes.\<close>

definition archive_one_block :: "byte list" where
  "archive_one_block = tar_header a_txt size_5 48"

text \<open>
  The file \<open>a.txt\<close> as above, then a header \<open>b\<close> whose size field reads \<open>-4000\<close>, then a
  zero block: 2048 bytes.
\<close>

definition archive_backwards :: "byte list" where
  "archive_backwards =
     (tar_header a_txt size_5 48 @ hello @ replicate 507 0)
     @ tar_header b_name size_minus_2048 48 @ replicate 512 0"

text \<open>A header \<open>b\<close> whose size field is not a number, then the file \<open>a.txt\<close>: 2048 bytes.\<close>

definition archive_garbage :: "byte list" where
  "archive_garbage =
     tar_header b_name size_garbage 48
     @ tar_header a_txt size_5 48 @ hello @ replicate 507 0 @ replicate 512 0"

text \<open>A header that announces 512 bytes, followed by 5 bytes only: 517 bytes.\<close>

definition archive_truncated :: "byte list" where
  "archive_truncated = tar_header a_txt size_512 48 @ hello"

text \<open>A platform whose \<open>TextDecoder\<close> knows none of the four legacy labels.\<close>

definition unsupported :: text_decoder where
  "unsupported label bytes = None"

text \<open>
  A decoder that knows one GBK sequence: the bytes \<open>0xC4 0xE3\<close> are the character
  \<open>U+4F60\<close>; it turns every other byte into the replacement character.
\<close>

definition gbk_sample :: text_decoder where
  "gbk_sample label bytes =
     (if bytes = [0xC4, 0xE3] then Some [0x4F60] else Some (map (\<lambda>b. 0xFFFD) bytes))"

text \<open>The name \<open>__proto__\<close>, and the size field \<open>1z\<close>.\<close>

definition proto_bytes :: "byte list" where
  "proto_bytes = [95, 95, 112, 114, 111, 116, 111, 95, 95]"


text \<open>
  A file \<open>__proto__\<close> and a file \<open>a.txt\<close>, each of 5 bytes, and one zero block: 2560
  bytes.  The same with the file \<open>__proto__\<close> alone: 1536 bytes.
\<close>

definition archive_proto :: "byte list" where
  "archive_proto =
     (tar_header proto_bytes size_5 48 @ hello @ replicate 507 0)
     @ tar_header a_txt size_5 48 @ hello @ replicate 507 0 @ replicate 512 0"

definition archive_proto_only :: "byte list" where
  "archive_proto_only = tar_header proto_bytes size_5 48 @ hello @ replicate 507 0 @ replicate 512 0"


text \<open>
  The file \<open>a.txt\<close> of 5 bytes, then a header \<open>b\<close> that announces 512 bytes, followed by
  5 bytes only: 1541 bytes.
\<close>

definition archive_truncated_second :: "byte list" where
  "archive_truncated_second =
     (tar_header a_txt size_5 48 @ hello @ replicate 507 0) @ tar_header b_name size_512 48 @ hello"

text \<open>
  A decoder whose results exercise the test of line 58: for \<open>gbk\<close> one replacement
  character among ten characters, for \<open>gb2312\<close> the empty string, for \<open>big5\<close> one
  replacement character and five characters outside the basic plane (eleven code units),
  for any other label a single letter.
\<close>

definition legacy_sample :: text_decoder where
  "legacy_sample label bytes =
     (if label = ''gbk'' then Some [0x41, 0x41, 0x41, 0x41, 0x41, 0x41, 0x41, 0x41, 0x41, 0xFFFD]
      else if label = ''gb2312'' then Some []
      else if label = ''big5'' then Some [0xFFFD, 0x1F600, 0x1F600, 0x1F600, 0x1F600, 0x1F600]
      else Some [0x42])"

section \<open>The size field in the words of the specification\<close>





section \<open>The inner loops on a block inside the buffer\<close>

lemma getUint8_in_range:
  "0 \<le> off \<Longrightarrow> nat off + i < length view \<Longrightarrow> getUint8 view (off + int i) = Inr (view ! (nat off + i))"
  by (simp add: getUint8_def nat_add_distrib)

lemma isEnd_loop_in_range:
  "0 \<le> off \<Longrightarrow> nat off + 512 \<le> length view \<Longrightarrow> i \<le> 512 \<Longrightarrow>
   isEnd_loop view off i = Inr (list_all (\<lambda>b. b = 0) (take (512 - i) (drop (nat off + i) view)))"
proof (induction view off i rule: isEnd_loop.induct)
  case (1 view off i)
  show ?case
  proof (cases "i < 512")
    case False
    with 1 show ?thesis by (simp add: isEnd_loop.simps)
  next
    case True
    with 1 have inr: "nat off + i < length view" by simp
    then have g: "getUint8 view (off + int i) = Inr (view ! (nat off + i))"
      using 1 by (simp add: getUint8_in_range)
    have d: "drop (nat off + i) view = view ! (nat off + i) # drop (nat off + (i + 1)) view"
      using inr by (simp add: Cons_nth_drop_Suc)
    have t: "512 - i = Suc (512 - (i + 1))" using True by simp
    have c: "off + int i < int (length view)" using inr 1 by linarith
    show ?thesis
    proof (cases "view ! (nat off + i) = 0")
      case False
      then show ?thesis
        using True c g by (subst isEnd_loop.simps) (simp add: d t del: drop_Suc_Cons)
    next
      case z: True
      have "isEnd_loop view off i = isEnd_loop view off (i + 1)"
        using True c g z by (subst isEnd_loop.simps) simp
      also have "\<dots> = Inr (list_all (\<lambda>b. b = 0) (take (512 - (i + 1)) (drop (nat off + (i + 1)) view)))"
        using 1 True c g z by simp
      finally show ?thesis using z by (simp add: d t)
    qed
  qed
qed


lemma fileName_loop_in_range:
  "0 \<le> off \<Longrightarrow> nat off + 100 \<le> length view \<Longrightarrow> i \<le> 100 \<Longrightarrow>
   fileName_loop view off i acc =
     Inr (acc @ takeWhile (\<lambda>b. b \<noteq> 0) (take (100 - i) (drop (nat off + i) view)))"
proof (induction view off i acc rule: fileName_loop.induct)
  case (1 view off i acc)
  show ?case
  proof (cases "i < 100")
    case False
    with 1 show ?thesis by (simp add: fileName_loop.simps)
  next
    case True
    with 1 have inr: "nat off + i < length view" by simp
    then have g: "getUint8 view (off + int i) = Inr (view ! (nat off + i))"
      using 1 by (simp add: getUint8_in_range)
    have d: "drop (nat off + i) view = view ! (nat off + i) # drop (nat off + (i + 1)) view"
      using inr by (simp add: Cons_nth_drop_Suc)
    have t: "100 - i = Suc (100 - (i + 1))" using True by simp
    show ?thesis
    proof (cases "view ! (nat off + i) = 0")
      case z: True
      then show ?thesis
        using True g by (subst fileName_loop.simps) (simp add: d t del: drop_Suc_Cons)
    next
      case nz: False
      have "fileName_loop view off i acc =
            fileName_loop view off (i + 1) (acc @ [view ! (nat off + i)])"
        using True g nz by (subst fileName_loop.simps) simp
      also have "\<dots> = Inr ((acc @ [view ! (nat off + i)]) @
          takeWhile (\<lambda>b. b \<noteq> 0) (take (100 - (i + 1)) (drop (nat off + (i + 1)) view)))"
        using 1 True g nz by simp
      finally show ?thesis using nz by (simp add: d t)
    qed
  qed
qed

lemma sizeStr_loop_in_range:
  "0 \<le> off \<Longrightarrow> nat off + 136 \<le> length view \<Longrightarrow> i \<le> 136 \<Longrightarrow>
   sizeStr_loop view off i acc =
     Inr (acc @ map unat (takeWhile (\<lambda>b. b \<noteq> 0 \<and> b \<noteq> 32)
                 (take (136 - i) (drop (nat off + i) view))))"
proof (induction view off i acc rule: sizeStr_loop.induct)
  case (1 view off i acc)
  show ?case
  proof (cases "i < 136")
    case False
    with 1 show ?thesis by (simp add: sizeStr_loop.simps)
  next
    case True
    with 1 have inr: "nat off + i < length view" by simp
    then have g: "getUint8 view (off + int i) = Inr (view ! (nat off + i))"
      using 1 by (simp add: getUint8_in_range)
    have d: "drop (nat off + i) view = view ! (nat off + i) # drop (nat off + (i + 1)) view"
      using inr by (simp add: Cons_nth_drop_Suc)
    have t: "136 - i = Suc (136 - (i + 1))" using True by simp
    show ?thesis
    proof (cases "view ! (nat off + i) = 0 \<or> view ! (nat off + i) = 32")
      case z: True
      then show ?thesis
        using True g by (subst sizeStr_loop.simps) (auto simp add: d t simp del: drop_Suc_Cons)
    next
      case nz: False
      have "sizeStr_loop view off i acc =
            sizeStr_loop view off (i + 1) (acc @ [unat (view ! (nat off + i))])"
        using True g nz by (subst sizeStr_loop.simps) simp
      also have "\<dots> = Inr ((acc @ [unat (view ! (nat off + i))]) @
          map unat (takeWhile (\<lambda>b. b \<noteq> 0 \<and> b \<noteq> 32)
            (take (136 - (i + 1)) (drop (nat off + (i + 1)) view))))"
        using 1 True g nz by simp
      finally show ?thesis using nz by (simp add: d t)
    qed
  qed
qed

lemma iteration_in_range:
  assumes "0 \<le> offset st" and "nat (offset st) + 512 \<le> length buf"
  shows "iteration td buf st =
    (if zero_block buf (nat (offset st)) then Inr (Break st)
     else if header_fileName td buf (nat (offset st)) = [] then Inr (Break st)
     else Inr (Next
       ((emit buf (header_fileName td buf (nat (offset st))) (header_fileSize buf (nat (offset st)))
          (header_type buf (nat (offset st))) (st\<lparr>offset := offset st + 512\<rparr>))
        \<lparr>offset := offset st + 512 + ceil512 (header_fileSize buf (nat (offset st)))\<rparr>)))"
proof -
  have e: "isEnd_loop buf (offset st) 0 = Inr (zero_block buf (nat (offset st)))"
    using assms by (simp add: isEnd_loop_in_range zero_block_def)
  have n: "fileName_loop buf (offset st) 0 [] = Inr (header_name buf (nat (offset st)))"
    using assms by (simp add: fileName_loop_in_range header_name_def)
  have s: "sizeStr_loop buf (offset st) 124 [] = Inr (header_sizeStr buf (nat (offset st)))"
    using assms by (simp add: sizeStr_loop_in_range header_sizeStr_def add.commute)
  have t: "getUint8 buf (offset st + 156) = Inr (header_type buf (nat (offset st)))"
    using assms getUint8_in_range [of "offset st" 156 buf] by (simp add: header_type_def)
  have o: "offset (emit buf fn fs ty s1) = offset s1" for fn fs ty s1
    by (simp add: emit_def Let_def)
  show ?thesis
    unfolding iteration_def e n s t
    by (simp add: Let_def header_fileName_def header_fileSize_def o)
qed


lemma ceil512_div: "ceil512 n = - ((- n) div 512) * 512"
proof -
  have "\<lceil>real_of_int n / 512\<rceil> = - \<lfloor>real_of_int (- n) / real_of_int 512\<rfloor>"
    by (simp add: ceiling_def)
  also have "\<dots> = - ((- n) div 512)"
    by (simp only: floor_divide_of_int_eq)
  finally show ?thesis by (simp add: ceil512_def)
qed

lemma iteration_negative_offset:
  assumes "offset st < 0"
  shows "iteration td buf st = Inl RangeError"
proof -
  have "isEnd_loop buf (offset st) 0 = Inl RangeError"
    using assms by (subst isEnd_loop.simps) (simp add: getUint8_def)
  then show ?thesis by (simp add: iteration_def)
qed

lemma scan_diverges:
  assumes g: "offset st < int (length buf) - 512" and i: "iteration td buf st = Inr (Next st)"
  shows "scan td buf st = None"
proof (rule ccontr)
  assume "scan td buf st \<noteq> None"
  then obtain y where y: "scan td buf st = Some y" by auto
  have "\<not> (td = td \<and> buf = buf \<and> st = st)"
  proof (rule scan.raw_induct [where P = "\<lambda>a b c d. \<not> (a = td \<and> b = buf \<and> c = st)", OF _ y])
    fix scan' :: "text_decoder \<Rightarrow> byte list \<Rightarrow> tar_state \<Rightarrow> (js_exception + tar_state) option"
    fix td' buf' st' y'
    assume IH: "\<And>a b c d. scan' a b c = Some d \<Longrightarrow> \<not> (a = td \<and> b = buf \<and> c = st)"
    assume F: "(if offset st' < int (length buf') - 512
      then case iteration td' buf' st' of Inl e \<Rightarrow> Some (Inl e)
           | Inr (Break s) \<Rightarrow> Some (Inr s)
           | Inr (Next s) \<Rightarrow> scan' td' buf' s
      else Some (Inr st')) = Some y'"
    show "\<not> (td' = td \<and> buf' = buf \<and> st' = st)"
    proof
      assume e: "td' = td \<and> buf' = buf \<and> st' = st"
      with F g i have "scan' td buf st = Some y'" by simp
      with IH show False by blast
    qed
  qed
  then show False by simp
qed

section \<open>Header blocks built by \<open>tar_header\<close>\<close>

lemma length_tar_header:
  "length nm \<le> 100 \<Longrightarrow> length sz \<le> 12 \<Longrightarrow> length (tar_header nm sz ty) = 512"
  by (simp add: tar_header_def)

lemma zero_block_tar_header:
  "length nm \<le> 100 \<Longrightarrow> length sz \<le> 12 \<Longrightarrow> nm \<noteq> [] \<Longrightarrow> 0 \<notin> set nm \<Longrightarrow>
   \<not> zero_block (pre @ tar_header nm sz ty @ rest) (length pre)"
  by (cases nm) (auto simp add: zero_block_def tar_header_def)

lemma header_name_tar_header:
  assumes "length nm \<le> 100" and "0 \<notin> set nm"
  shows "header_name (pre @ tar_header nm sz ty @ rest) (length pre) = nm"
proof -
  have "takeWhile (\<lambda>b. b \<noteq> 0) (nm @ replicate (100 - length nm) 0) = nm"
    using assms(2) by (subst takeWhile_append2) (auto simp add: takeWhile_replicate)
  moreover have "take 100 (tar_header nm sz ty @ rest) = nm @ replicate (100 - length nm) 0"
    using assms(1) by (simp add: tar_header_def min_def)
  ultimately show ?thesis by (simp add: header_name_def)
qed

lemma header_sizeStr_tar_header:
  assumes "length nm \<le> 100" and "length sz \<le> 12" and "\<forall>b\<in>set sz. b \<noteq> 0 \<and> b \<noteq> 32"
  shows "header_sizeStr (pre @ tar_header nm sz ty @ rest) (length pre) = map unat sz"
proof -
  have "takeWhile (\<lambda>b. b \<noteq> 0 \<and> b \<noteq> 32) (sz @ replicate (12 - length sz) 0) = sz"
    using assms(3) by (subst takeWhile_append2) (auto simp add: takeWhile_replicate)
  moreover have "take 12 (drop 124 (tar_header nm sz ty @ rest)) = sz @ replicate (12 - length sz) 0"
    using assms(1,2) by (simp add: tar_header_def min_def)
  ultimately show ?thesis by (simp add: header_sizeStr_def drop_drop [symmetric] del: drop_drop)
qed

lemma header_type_tar_header:
  assumes "length nm \<le> 100" and "length sz \<le> 12"
  shows "header_type (pre @ tar_header nm sz ty @ rest) (length pre) = ty"
proof -
  define front where
    "front = nm @ replicate (124 - length nm) 0 @ sz @ replicate (32 - length sz) 0"
  have l: "length front = 156" using assms by (simp add: front_def)
  have "tar_header nm sz ty @ rest = front @ ty # (replicate 355 0 @ rest)"
    by (simp add: tar_header_def front_def)
  then have "(tar_header nm sz ty @ rest) ! 156 = ty"
    using nth_append_length [of front ty "replicate 355 0 @ rest"] by (simp add: l)
  then show ?thesis by (simp add: header_type_def nth_append)
qed

lemma iteration_tar_header:
  assumes "buf = pre @ tar_header nm sz ty @ rest" and "offset st = int (length pre)"
    and "length nm \<le> 100" and "length sz \<le> 12" and "nm \<noteq> []" and "0 \<notin> set nm"
    and "\<forall>b\<in>set sz. b \<noteq> 0 \<and> b \<noteq> 32"
  shows "iteration td buf st =
    (if smartDecodeFileName td nm = [] then Inr (Break st)
     else Inr (Next
       ((emit buf (smartDecodeFileName td nm) (fileSize_of (map unat sz)) ty
           (st\<lparr>offset := offset st + 512\<rparr>))
        \<lparr>offset := offset st + 512 + ceil512 (fileSize_of (map unat sz))\<rparr>)))"
proof -
  have o: "nat (offset st) = length pre" using assms(2) by simp
  have "nat (offset st) + 512 \<le> length buf"
    using assms(1,3,4) by (simp add: o length_tar_header)
  moreover have "0 \<le> offset st" using assms(2) by simp
  ultimately show ?thesis
    using assms
    by (simp add: iteration_in_range o header_fileName_def header_fileSize_def
        zero_block_tar_header header_name_tar_header header_sizeStr_tar_header
        header_type_tar_header)
qed

lemma isAscii_decode: "isAscii bytes \<Longrightarrow> smartDecodeFileName td bytes = map unat bytes"
proof -
  assume a: "isAscii bytes"
  have "windows1252_char b = unat b" if "\<not> b > 127" for b :: byte
  proof -
    from that have "unat b \<le> 127" by (simp add: word_le_nat_alt not_less)
    then show ?thesis by (simp add: windows1252_char_def)
  qed
  with a have "decode_windows1252 bytes = map unat bytes"
    by (simp add: decode_windows1252_def isAscii_def list_all_iff)
  with a show ?thesis by (simp add: smartDecodeFileName_def)
qed

lemma fileSize_5: "fileSize_of (map unat size_5) = 5"
  by (simp add: fileSize_of_def size_5_def trim_def parseInt8_def js_whitespace_def octal_digit_def octal_value_def)

lemma fileSize_512: "fileSize_of (map unat size_512) = 512"
  by (simp add: fileSize_of_def size_512_def trim_def parseInt8_def js_whitespace_def octal_digit_def octal_value_def)

lemma fileSize_minus_512: "fileSize_of (map unat size_minus_512) = - 512"
  by (simp add: fileSize_of_def size_minus_512_def trim_def parseInt8_def js_whitespace_def octal_digit_def octal_value_def)

lemma fileSize_minus_2048: "fileSize_of (map unat size_minus_2048) = - 2048"
  by (simp add: fileSize_of_def size_minus_2048_def trim_def parseInt8_def js_whitespace_def octal_digit_def octal_value_def)

lemma fileSize_garbage: "parseInt8 (trim (map unat size_garbage)) = None"
  by (simp add: size_garbage_def trim_def parseInt8_def js_whitespace_def octal_digit_def octal_value_def)

lemma name_a_txt: "smartDecodeFileName td a_txt = [97, 46, 116, 120, 116]"
  by (subst isAscii_decode) (simp_all add: isAscii_def a_txt_def)

lemma map_of_insert_index:
  "map_of obj k = None \<Longrightarrow> map_of (insert_index n k v obj) k = Some v"
  by (induction obj) (auto split: option.splits if_splits)

lemma map_of_js_set:
  assumes "k \<noteq> proto_name"
  shows "map_of (js_set k v obj) k = Some v"
proof (cases "map_of obj k")
  case None
  then show ?thesis
    using assms by (simp add: js_set_def map_of_insert_index map_add_def split: option.splits)
next
  case (Some old)
  then show ?thesis
    using assms by (simp add: js_set_def update_conv')
qed

lemma js_set_not_Nil:
  assumes "k \<noteq> proto_name"
  shows "js_set k v obj \<noteq> []"
  using map_of_js_set [OF assms, of v obj] by auto

lemma js_set_proto: "js_set proto_name v obj = obj"
  by (simp add: js_set_def)

lemma js_set_new_name:
  assumes "k \<noteq> proto_name" and "array_index k = None" and "map_of obj k = None"
  shows "js_set k v obj = obj @ [(k, v)]"
  using assms by (simp add: js_set_def)

lemma a_txt_key:
  "[97, 46, 116, 120, 116] \<noteq> proto_name" "array_index [97, 46, 116, 120, 116] = None"
  by (simp_all add: proto_name_def array_index_def decimal_digit_def)

lemma b_key: "[98] \<noteq> proto_name" "array_index [98] = None"
  by (simp_all add: proto_name_def array_index_def decimal_digit_def)

lemma iteration_hello:
  "iteration td archive_hello (initial_state []) =
     Inr (Next \<lparr>offset = 1024, processedFiles = 1,
       extractedFiles = [([97, 46, 116, 120, 116],
         \<lparr>name = [97, 46, 116, 120, 116], path = [97, 46, 116, 120, 116], size_field = 5,
          content = hello\<rparr>)]\<rparr>)"
proof -
  have "iteration td archive_hello (initial_state []) =
    (if smartDecodeFileName td a_txt = [] then Inr (Break (initial_state []))
     else Inr (Next
       ((emit archive_hello (smartDecodeFileName td a_txt) (fileSize_of (map unat size_5)) 48
           ((initial_state [])\<lparr>offset := offset (initial_state []) + 512\<rparr>))
        \<lparr>offset := offset (initial_state []) + 512 + ceil512 (fileSize_of (map unat size_5))\<rparr>)))"
    by (rule iteration_tar_header [where pre = "[]" and rest = "hello @ replicate 507 0 @ replicate 512 0"])
       (simp_all add: archive_hello_def initial_state_def a_txt_def size_5_def)
  moreover have "buffer_slice archive_hello 512 517 = hello"
    by (simp add: buffer_slice_def archive_hello_def length_tar_header a_txt_def size_5_def hello_def)
  ultimately show ?thesis
    by (simp add: name_a_txt fileSize_5 ceil512_div emit_def regular_file_def endsWith_slash_def
        basename_def initial_state_def Let_def hello_def js_set_new_name a_txt_key)
qed

lemma scan_hello:
  "scan td archive_hello (initial_state []) =
     Some (Inr \<lparr>offset = 1024, processedFiles = 1,
       extractedFiles = [([97, 46, 116, 120, 116],
         \<lparr>name = [97, 46, 116, 120, 116], path = [97, 46, 116, 120, 116], size_field = 5,
          content = hello\<rparr>)]\<rparr>)"
proof -
  have l: "length archive_hello = 1536"
    by (simp add: archive_hello_def length_tar_header a_txt_def size_5_def hello_def)
  show ?thesis
    apply (subst scan.simps)
    apply (simp add: l iteration_hello)
    apply (simp add: initial_state_def)
    apply (subst scan.simps)
    apply (simp add: l)
    done
qed

lemma length_archives:
  "length archive_hello = 1536" "length archive_negative = 1024" "length archive_one_block = 512"
  "length archive_backwards = 2048" "length archive_garbage = 2048" "length archive_truncated = 517"
  by (simp_all add: archive_hello_def archive_negative_def archive_one_block_def
      archive_backwards_def archive_garbage_def archive_truncated_def length_tar_header
      a_txt_def b_name_def size_5_def size_512_def size_minus_512_def size_minus_2048_def
      size_garbage_def hello_def)

lemma a_txt_ok: "length a_txt \<le> 100" "a_txt \<noteq> []" "0 \<notin> set a_txt"
  by (simp_all add: a_txt_def)

lemma b_name_ok: "length b_name \<le> 100" "b_name \<noteq> []" "0 \<notin> set b_name"
  by (simp_all add: b_name_def)

lemma size_5_ok: "length size_5 \<le> 12" "\<forall>b\<in>set size_5. b \<noteq> 0 \<and> b \<noteq> 32"
  by (simp_all add: size_5_def)

lemma size_512_ok: "length size_512 \<le> 12" "\<forall>b\<in>set size_512. b \<noteq> 0 \<and> b \<noteq> 32"
  by (simp_all add: size_512_def)

lemma size_minus_512_ok:
  "length size_minus_512 \<le> 12" "\<forall>b\<in>set size_minus_512. b \<noteq> 0 \<and> b \<noteq> 32"
  by (simp_all add: size_minus_512_def)

lemma size_minus_2048_ok:
  "length size_minus_2048 \<le> 12" "\<forall>b\<in>set size_minus_2048. b \<noteq> 0 \<and> b \<noteq> 32"
  by (simp_all add: size_minus_2048_def)


lemma name_b: "smartDecodeFileName td b_name = [98]"
  by (subst isAscii_decode) (simp_all add: isAscii_def b_name_def)

lemma parseInt8_empty: "parseInt8 (trim []) = None"
  by (simp add: parseInt8_def trim_def)

lemma scan_step:
  assumes "offset st < int (length buf) - 512" and "iteration td buf st = Inr (Next st')"
  shows "scan td buf st = scan td buf st'"
  using assms by (subst scan.simps) simp

lemma scan_break:
  assumes "offset st < int (length buf) - 512" and "iteration td buf st = Inr (Break st')"
  shows "scan td buf st = Some (Inr st')"
  using assms by (subst scan.simps) simp

lemma scan_raise:
  assumes "offset st < int (length buf) - 512" and "iteration td buf st = Inl e"
  shows "scan td buf st = Some (Inl e)"
  using assms by (subst scan.simps) simp

lemma scan_exit:
  assumes "\<not> offset st < int (length buf) - 512"
  shows "scan td buf st = Some (Inr st)"
  using assms by (subst scan.simps) simp

section \<open>A file named \<open>__proto__\<close>\<close>

lemma proto_bytes_ok: "length proto_bytes \<le> 100" "proto_bytes \<noteq> []" "0 \<notin> set proto_bytes"
  by (simp_all add: proto_bytes_def)

lemma name_proto: "smartDecodeFileName td proto_bytes = proto_name"
  by (subst isAscii_decode) (simp_all add: isAscii_def proto_bytes_def proto_name_def)

lemma length_proto_archives:
  "length archive_proto = 2560" "length archive_proto_only = 1536"
  by (simp_all add: archive_proto_def archive_proto_only_def length_tar_header proto_bytes_ok
      a_txt_ok size_5_ok hello_def)

lemma proto_regular: "regular_file proto_name 5 48"
  by (simp add: regular_file_def endsWith_slash_def proto_name_def)

lemma iteration_proto_first:
  "iteration td archive_proto (initial_state []) =
     Inr (Next \<lparr>offset = 1024, processedFiles = 1, extractedFiles = []\<rparr>)"
proof -
  have a: "archive_proto = [] @ tar_header proto_bytes size_5 48 @
      (hello @ replicate 507 0 @ tar_header a_txt size_5 48 @ hello @ replicate 507 0 @
       replicate 512 0)"
    by (simp add: archive_proto_def)
  show ?thesis
    by (subst iteration_tar_header
          [OF a _ proto_bytes_ok(1) size_5_ok(1) proto_bytes_ok(2,3) size_5_ok(2)])
       (simp_all add: initial_state_def name_proto fileSize_5 ceil512_div emit_def
         proto_regular js_set_proto, simp add: proto_name_def)
qed

lemma iteration_proto_second:
  "iteration td archive_proto \<lparr>offset = 1024, processedFiles = 1, extractedFiles = []\<rparr> =
     Inr (Next \<lparr>offset = 2048, processedFiles = 2,
       extractedFiles = [([97, 46, 116, 120, 116],
         \<lparr>name = [97, 46, 116, 120, 116], path = [97, 46, 116, 120, 116], size_field = 5,
          content = hello\<rparr>)]\<rparr>)"
proof -
  have a: "archive_proto = (tar_header proto_bytes size_5 48 @ hello @ replicate 507 0) @
      tar_header a_txt size_5 48 @ (hello @ replicate 507 0 @ replicate 512 0)"
    by (simp add: archive_proto_def)
  have sl: "buffer_slice archive_proto 1536 1541 = hello"
    by (simp add: buffer_slice_def archive_proto_def length_tar_header proto_bytes_ok a_txt_ok
        size_5_ok hello_def)
  show ?thesis
    by (subst iteration_tar_header [OF a _ a_txt_ok(1) size_5_ok(1) a_txt_ok(2,3) size_5_ok(2)])
       (simp_all add: length_tar_header proto_bytes_ok size_5_ok name_a_txt fileSize_5 ceil512_div
         emit_def regular_file_def endsWith_slash_def basename_def sl hello_def js_set_new_name
         a_txt_key)
qed

lemma iteration_proto_only:
  "iteration td archive_proto_only (initial_state []) =
     Inr (Next \<lparr>offset = 1024, processedFiles = 1, extractedFiles = []\<rparr>)"
proof -
  have a: "archive_proto_only = [] @ tar_header proto_bytes size_5 48 @
      (hello @ replicate 507 0 @ replicate 512 0)"
    by (simp add: archive_proto_only_def)
  show ?thesis
    by (subst iteration_tar_header
          [OF a _ proto_bytes_ok(1) size_5_ok(1) proto_bytes_ok(2,3) size_5_ok(2)])
       (simp_all add: initial_state_def name_proto fileSize_5 ceil512_div emit_def
         proto_regular js_set_proto, simp add: proto_name_def)
qed

text \<open>
  C1.  An entry is not emitted for every header that passes the test of line 758.  In
  \<open>archive_proto\<close> the first header has the name \<open>__proto__\<close>, the type flag 48 and the
  size 5, so the test holds and line 763 is executed; but the assignment sets the
  prototype of \<open>extractedFiles\<close> and adds no key, and the result holds the second file
  alone.  When the file \<open>__proto__\<close> is the only one, \<open>extractedFiles\<close> stays empty and
  \<open>extractTar\<close> raises.
\<close>

theorem extractTar_proto_name_not_emitted:
  "header_fileName td archive_proto 0 = proto_name
   \<and> header_fileSize archive_proto 0 = 5
   \<and> header_type archive_proto 0 = 48
   \<and> regular_file (header_fileName td archive_proto 0) (header_fileSize archive_proto 0)
        (header_type archive_proto 0)
   \<and> extractTar td [] archive_proto =
       Some (Inr [([97, 46, 116, 120, 116],
         \<lparr>name = [97, 46, 116, 120, 116], path = [97, 46, 116, 120, 116], size_field = 5,
          content = hello\<rparr>)])
   \<and> extractTar td [] archive_proto_only = Some (Inl TarExtractError)"
proof -
  let ?rest = "hello @ replicate 507 0 @ tar_header a_txt size_5 48 @ hello @ replicate 507 0 @
       replicate 512 0"
  have n: "header_fileName td archive_proto 0 = proto_name"
    using header_name_tar_header [OF proto_bytes_ok(1,3), of "[]" size_5 48 ?rest]
    by (simp add: header_fileName_def name_proto archive_proto_def)
  have s: "header_fileSize archive_proto 0 = 5"
    using header_sizeStr_tar_header [OF proto_bytes_ok(1) size_5_ok, of "[]" 48 ?rest]
    by (simp add: header_fileSize_def fileSize_5 archive_proto_def)
  have t: "header_type archive_proto 0 = 48"
    using header_type_tar_header [OF proto_bytes_ok(1) size_5_ok(1), of "[]" 48 ?rest]
    by (simp add: archive_proto_def)
  have r: "regular_file (header_fileName td archive_proto 0) (header_fileSize archive_proto 0)
        (header_type archive_proto 0)"
    by (simp only: n s t proto_regular)
  have "scan td archive_proto \<lparr>offset = 2048, processedFiles = 2,
       extractedFiles = [([97, 46, 116, 120, 116],
         \<lparr>name = [97, 46, 116, 120, 116], path = [97, 46, 116, 120, 116], size_field = 5,
          content = hello\<rparr>)]\<rparr> =
     Some (Inr \<lparr>offset = 2048, processedFiles = 2,
       extractedFiles = [([97, 46, 116, 120, 116],
         \<lparr>name = [97, 46, 116, 120, 116], path = [97, 46, 116, 120, 116], size_field = 5,
          content = hello\<rparr>)]\<rparr>)"
    by (rule scan_exit) (simp add: length_proto_archives)
  then have "scan td archive_proto \<lparr>offset = 1024, processedFiles = 1, extractedFiles = []\<rparr> =
     Some (Inr \<lparr>offset = 2048, processedFiles = 2,
       extractedFiles = [([97, 46, 116, 120, 116],
         \<lparr>name = [97, 46, 116, 120, 116], path = [97, 46, 116, 120, 116], size_field = 5,
          content = hello\<rparr>)]\<rparr>)"
    by (subst scan_step [OF _ iteration_proto_second]) (simp_all add: length_proto_archives)
  then have "scan td archive_proto (initial_state []) =
     Some (Inr \<lparr>offset = 2048, processedFiles = 2,
       extractedFiles = [([97, 46, 116, 120, 116],
         \<lparr>name = [97, 46, 116, 120, 116], path = [97, 46, 116, 120, 116], size_field = 5,
          content = hello\<rparr>)]\<rparr>)"
    by (subst scan_step [OF _ iteration_proto_first])
       (simp_all add: length_proto_archives initial_state_def)
  then have e: "extractTar td [] archive_proto =
       Some (Inr [([97, 46, 116, 120, 116],
         \<lparr>name = [97, 46, 116, 120, 116], path = [97, 46, 116, 120, 116], size_field = 5,
          content = hello\<rparr>)])"
    by (simp add: extractTar_def try_block_def)
  have "scan td archive_proto_only \<lparr>offset = 1024, processedFiles = 1, extractedFiles = []\<rparr> =
     Some (Inr \<lparr>offset = 1024, processedFiles = 1, extractedFiles = []\<rparr>)"
    by (rule scan_exit) (simp add: length_proto_archives)
  then have "scan td archive_proto_only (initial_state []) =
     Some (Inr \<lparr>offset = 1024, processedFiles = 1, extractedFiles = []\<rparr>)"
    by (subst scan_step [OF _ iteration_proto_only])
       (simp_all add: length_proto_archives initial_state_def)
  then have o: "extractTar td [] archive_proto_only = Some (Inl TarExtractError)"
    by (simp add: extractTar_def try_block_def)
  show ?thesis
    by (intro conjI) (rule n, rule s, rule t, rule r, rule e, rule o)
qed

section \<open>A payload that runs past the end of the buffer\<close>

lemma ceil512_ge: "n \<le> ceil512 n"
proof -
  have "(- n) div 512 * 512 \<le> - n"
    using div_mult_mod_eq [of "- n" 512] pos_mod_sign [of 512 "- n"] by linarith
  then show ?thesis by (simp add: ceil512_div)
qed

text \<open>
  C10.  An entry is emitted for a header that the loop visits when the test of line 758
  holds and the name is not \<open>__proto__\<close>.  Then the iteration succeeds whatever the size
  announces: the slice of line 760 is clamped at the end of the buffer, the stored content
  is what the buffer holds after the header, at most \<open>fileSize\<close> bytes, and its length is
  the minimum of \<open>fileSize\<close> and of the number of bytes from the cursor to the end of the
  buffer.  When the size exceeds that number, the content is all the rest of the buffer,
  the loop ends after this iteration without an exception, and \<open>extractTar\<close>, when its
  scan reaches this header, returns the dictionary with this entry.
\<close>

theorem extractTar_clamps_content:
  assumes "offset st < int (length buf) - 512" and "0 \<le> offset st"
    and "\<not> zero_block buf (nat (offset st))"
    and "header_fileName td buf (nat (offset st)) \<noteq> []"
    and "header_fileName td buf (nat (offset st)) \<noteq> proto_name"
    and "regular_file (header_fileName td buf (nat (offset st)))
           (header_fileSize buf (nat (offset st))) (header_type buf (nat (offset st)))"
  shows "let off = nat (offset st);
             fileName = header_fileName td buf off;
             fileSize = header_fileSize buf off;
             fileData = take (nat fileSize) (drop (off + 512) buf);
             e = \<lparr>name = basename fileName, path = fileName, size_field = length fileData,
                  content = fileData\<rparr>;
             st' = st\<lparr>offset := offset st + 512 + ceil512 fileSize,
                      extractedFiles := js_set fileName e (extractedFiles st),
                      processedFiles := processedFiles st + 1\<rparr>
         in iteration td buf st = Inr (Next st')
            \<and> map_of (extractedFiles st') fileName = Some e
            \<and> int (length fileData) = min fileSize (int (length buf) - (offset st + 512))
            \<and> (int (length buf) - (offset st + 512) < fileSize \<longrightarrow>
                  fileData = drop (off + 512) buf
                  \<and> scan td buf st = Some (Inr st')
                  \<and> (scan td buf (initial_state []) = scan td buf st \<longrightarrow>
                       extractTar td [] buf = Some (Inr (extractedFiles st'))))"
proof -
  let ?off = "nat (offset st)"
  let ?fileName = "header_fileName td buf ?off"
  let ?fileSize = "header_fileSize buf ?off"
  let ?fileData = "take (nat ?fileSize) (drop (?off + 512) buf)"
  let ?e = "\<lparr>name = basename ?fileName, path = ?fileName, size_field = length ?fileData,
             content = ?fileData\<rparr>"
  let ?st' = "st\<lparr>offset := offset st + 512 + ceil512 ?fileSize,
                 extractedFiles := js_set ?fileName ?e (extractedFiles st),
                 processedFiles := processedFiles st + 1\<rparr>"
  from assms(1,2) have len: "?off + 512 \<le> length buf" by linarith
  have sl: "buffer_slice buf (offset st + 512) (offset st + 512 + n) =
            take (nat n) (drop (?off + 512) buf)" for n
    using assms(2) by (simp add: buffer_slice_def nat_add_distrib)
  have sz: "0 < ?fileSize"
    using assms(6) by (simp add: regular_file_def)
  have i: "iteration td buf st = Inr (Next ?st')"
    unfolding iteration_in_range [OF assms(2) len]
    using assms(3,4,6) by (simp add: Let_def emit_def sl)
  have m: "map_of (extractedFiles ?st') ?fileName = Some ?e"
    using assms(5) by (simp add: map_of_js_set)
  have l: "int (length ?fileData) = min ?fileSize (int (length buf) - (offset st + 512))"
    using assms(2) len sz by (simp add: min_def) linarith
  have t: "?fileData = drop (?off + 512) buf
           \<and> scan td buf st = Some (Inr ?st')
           \<and> (scan td buf (initial_state []) = scan td buf st \<longrightarrow>
                extractTar td [] buf = Some (Inr (extractedFiles ?st')))"
    if over: "int (length buf) - (offset st + 512) < ?fileSize"
  proof -
    have "length (drop (?off + 512) buf) \<le> nat ?fileSize"
      using over assms(2) len by simp
    then have c: "?fileData = drop (?off + 512) buf" by simp
    have "\<not> offset ?st' < int (length buf) - 512"
      using over ceil512_ge [of ?fileSize] by simp
    then have "scan td buf ?st' = Some (Inr ?st')" by (rule scan_exit)
    with scan_step [OF assms(1) i] have s: "scan td buf st = Some (Inr ?st')" by simp
    have "extractedFiles ?st' \<noteq> []"
      using assms(5) by (simp add: js_set_not_Nil)
    then have "extractTar td [] buf = Some (Inr (extractedFiles ?st'))"
      if "scan td buf (initial_state []) = scan td buf st"
      using that s by (simp add: extractTar_def try_block_def)
    with c s show ?thesis by blast
  qed
  from i m l t show ?thesis
    unfolding Let_def by blast
qed

lemma length_truncated_second: "length archive_truncated_second = 1541"
  by (simp add: archive_truncated_second_def length_tar_header a_txt_ok b_name_ok size_5_ok
      size_512_ok hello_def)

lemma iteration_truncated_second_first:
  "iteration td archive_truncated_second (initial_state []) =
     Inr (Next \<lparr>offset = 1024, processedFiles = 1,
       extractedFiles = [([97, 46, 116, 120, 116],
         \<lparr>name = [97, 46, 116, 120, 116], path = [97, 46, 116, 120, 116], size_field = 5,
          content = hello\<rparr>)]\<rparr>)"
proof -
  have a: "archive_truncated_second = [] @ tar_header a_txt size_5 48 @
      (hello @ replicate 507 0 @ tar_header b_name size_512 48 @ hello)"
    by (simp add: archive_truncated_second_def)
  have sl: "buffer_slice archive_truncated_second 512 517 = hello"
    by (simp add: buffer_slice_def archive_truncated_second_def length_tar_header a_txt_ok
        size_5_ok hello_def)
  show ?thesis
    by (subst iteration_tar_header [OF a _ a_txt_ok(1) size_5_ok(1) a_txt_ok(2,3) size_5_ok(2)])
       (simp_all add: initial_state_def name_a_txt fileSize_5 ceil512_div emit_def
         regular_file_def endsWith_slash_def basename_def sl hello_def js_set_new_name a_txt_key)
qed

lemma truncated_fields:
  "\<not> zero_block archive_truncated 0"
  "header_fileName td archive_truncated 0 = [97, 46, 116, 120, 116]"
  "header_fileSize archive_truncated 0 = 512"
  "header_type archive_truncated 0 = 48"
proof -
  show "\<not> zero_block archive_truncated 0"
    using zero_block_tar_header [OF a_txt_ok(1) size_512_ok(1) a_txt_ok(2,3), of "[]" 48 hello]
    by (simp add: archive_truncated_def)
  show "header_fileName td archive_truncated 0 = [97, 46, 116, 120, 116]"
    using header_name_tar_header [OF a_txt_ok(1,3), of "[]" size_512 48 hello]
    by (simp add: header_fileName_def name_a_txt archive_truncated_def)
  show "header_fileSize archive_truncated 0 = 512"
    using header_sizeStr_tar_header [OF a_txt_ok(1) size_512_ok, of "[]" 48 hello]
    by (simp add: header_fileSize_def fileSize_512 archive_truncated_def)
  show "header_type archive_truncated 0 = 48"
    using header_type_tar_header [OF a_txt_ok(1) size_512_ok(1), of "[]" 48 hello]
    by (simp add: archive_truncated_def)
qed

lemma truncated_second_fields:
  "\<not> zero_block archive_truncated_second 1024"
  "header_fileName td archive_truncated_second 1024 = [98]"
  "header_fileSize archive_truncated_second 1024 = 512"
  "header_type archive_truncated_second 1024 = 48"
proof -
  let ?pre = "tar_header a_txt size_5 48 @ hello @ replicate 507 0"
  have l: "length ?pre = 1024"
    by (simp add: length_tar_header a_txt_ok size_5_ok hello_def)
  have a: "archive_truncated_second = ?pre @ tar_header b_name size_512 48 @ hello"
    by (simp add: archive_truncated_second_def)
  show "\<not> zero_block archive_truncated_second 1024"
    using zero_block_tar_header [OF b_name_ok(1) size_512_ok(1) b_name_ok(2,3), of ?pre 48 hello]
    by (simp only: a l) simp
  show "header_fileName td archive_truncated_second 1024 = [98]"
    using header_name_tar_header [OF b_name_ok(1,3), of ?pre size_512 48 hello]
    by (simp only: a l header_fileName_def name_b)
  show "header_fileSize archive_truncated_second 1024 = 512"
    using header_sizeStr_tar_header [OF b_name_ok(1) size_512_ok, of ?pre 48 hello]
    by (simp only: a l header_fileSize_def fileSize_512)
  show "header_type archive_truncated_second 1024 = 48"
    using header_type_tar_header [OF b_name_ok(1) size_512_ok(1), of ?pre 48 hello]
    by (simp only: a l)
qed

theorem extractTar_clamps_content_witness:
  "offset (initial_state []) < int (length archive_truncated) - 512
   \<and> 0 \<le> offset (initial_state [])
   \<and> \<not> zero_block archive_truncated 0
   \<and> header_fileName unsupported archive_truncated 0 = [97, 46, 116, 120, 116]
   \<and> [97, 46, 116, 120, 116] \<noteq> proto_name
   \<and> regular_file [97, 46, 116, 120, 116] 512 48
   \<and> header_fileSize archive_truncated 0 = 512
   \<and> header_type archive_truncated 0 = 48
   \<and> int (length archive_truncated) - 512 < 512
   \<and> extractTar unsupported [] archive_truncated =
       Some (Inr [([97, 46, 116, 120, 116],
         \<lparr>name = [97, 46, 116, 120, 116], path = [97, 46, 116, 120, 116], size_field = 5,
          content = hello\<rparr>)])
   \<and> scan unsupported archive_truncated_second (initial_state []) =
       scan unsupported archive_truncated_second
         \<lparr>offset = 1024, processedFiles = 1,
          extractedFiles = [([97, 46, 116, 120, 116],
            \<lparr>name = [97, 46, 116, 120, 116], path = [97, 46, 116, 120, 116], size_field = 5,
             content = hello\<rparr>)]\<rparr>
   \<and> header_fileName unsupported archive_truncated_second 1024 = [98]
   \<and> header_fileSize archive_truncated_second 1024 = 512
   \<and> int (length archive_truncated_second) - 1536 < 512
   \<and> extractTar unsupported [] archive_truncated_second =
       Some (Inr [([97, 46, 116, 120, 116],
         \<lparr>name = [97, 46, 116, 120, 116], path = [97, 46, 116, 120, 116], size_field = 5,
          content = hello\<rparr>),
         ([98], \<lparr>name = [98], path = [98], size_field = 5, content = hello\<rparr>)])"
proof -
  let ?a = "([97, 46, 116, 120, 116],
         \<lparr>name = [97, 46, 116, 120, 116], path = [97, 46, 116, 120, 116], size_field = 5,
          content = hello\<rparr>)"
  let ?st = "\<lparr>offset = 1024, processedFiles = 1, extractedFiles = [?a]\<rparr>"
  have g: "offset (initial_state []) < int (length archive_truncated) - 512"
    and p: "0 \<le> offset (initial_state [])"
    by (simp_all add: initial_state_def length_archives)
  have o: "nat (offset (initial_state [])) = 0" and o': "offset (initial_state []) = 0"
    and x: "extractedFiles (initial_state []) = []"
    by (simp_all add: initial_state_def)
  note f = truncated_fields
  have n: "header_fileName unsupported archive_truncated 0 \<noteq> []"
    and q: "header_fileName unsupported archive_truncated 0 \<noteq> proto_name"
    by (simp_all add: f a_txt_key)
  have r: "regular_file [97, 46, 116, 120, 116] 512 48"
    by (simp add: regular_file_def endsWith_slash_def)
  then have r': "regular_file (header_fileName unsupported archive_truncated 0)
         (header_fileSize archive_truncated 0) (header_type archive_truncated 0)"
    by (simp only: f)
  have d: "drop 512 archive_truncated = hello"
    by (simp add: archive_truncated_def length_tar_header a_txt_ok size_512_ok)
  have e1: "extractTar unsupported [] archive_truncated = Some (Inr [?a])"
    using extractTar_clamps_content
      [of "initial_state []" archive_truncated unsupported, unfolded o, OF g p f(1) n q r']
    by (simp add: Let_def f d o' x length_archives js_set_new_name a_txt_key basename_def
        hello_def)
  have g2: "offset ?st < int (length archive_truncated_second) - 512" and p2: "0 \<le> offset ?st"
    by (simp_all add: length_truncated_second)
  have o2: "nat (offset ?st) = 1024" by simp
  note f2 = truncated_second_fields
  have n2: "header_fileName unsupported archive_truncated_second 1024 \<noteq> []"
    and q2: "header_fileName unsupported archive_truncated_second 1024 \<noteq> proto_name"
    by (simp_all add: f2 b_key)
  have r2: "regular_file (header_fileName unsupported archive_truncated_second 1024)
         (header_fileSize archive_truncated_second 1024) (header_type archive_truncated_second 1024)"
    by (simp add: f2 regular_file_def endsWith_slash_def)
  have reach: "scan unsupported archive_truncated_second (initial_state []) =
               scan unsupported archive_truncated_second ?st"
    by (rule scan_step [OF _ iteration_truncated_second_first])
       (simp add: initial_state_def length_truncated_second)
  have d2: "drop 1536 archive_truncated_second = hello"
    by (simp add: archive_truncated_second_def length_tar_header a_txt_ok b_name_ok size_5_ok
        size_512_ok hello_def)
  have e2: "extractTar unsupported [] archive_truncated_second =
       Some (Inr [?a, ([98], \<lparr>name = [98], path = [98], size_field = 5, content = hello\<rparr>)])"
    using extractTar_clamps_content
      [of ?st archive_truncated_second unsupported, unfolded o2, OF g2 p2 f2(1) n2 q2 r2] reach
    by (simp add: Let_def f2 d2 length_truncated_second js_set_new_name b_key basename_def
        hello_def)
  have l1: "int (length archive_truncated) - 512 < 512"
    and l2: "int (length archive_truncated_second) - 1536 < 512"
    by (simp_all add: length_archives length_truncated_second)
  show ?thesis
    by (intro conjI) (rule g, rule p, rule f(1), rule f(2), rule a_txt_key(1), rule r, rule f(3),
      rule f(4), rule l1, rule e1, rule reach, rule f2(2), rule f2(3), rule l2, rule e2)
qed

section \<open>The size field\<close>
















lemma iteration_negative:
  "iteration td archive_negative (initial_state []) = Inr (Next (initial_state []))"
proof -
  have a: "archive_negative = [] @ tar_header a_txt size_minus_512 48 @ replicate 512 0"
    by (simp add: archive_negative_def)
  show ?thesis
    by (subst iteration_tar_header
          [OF a _ a_txt_ok(1) size_minus_512_ok(1) a_txt_ok(2,3) size_minus_512_ok(2)])
       (simp_all add: initial_state_def name_a_txt fileSize_minus_512 ceil512_div emit_def
         regular_file_def)
qed

section \<open>A negative size field\<close>

text \<open>
  C2.  The scan does not terminate on every buffer.  \<open>parseInt\<close> accepts a sign, and
  \<open>|| 0\<close> only replaces \<open>NaN\<close> and zero, so the size \<open>-1000\<close> (octal) is \<open>-512\<close>: the
  cursor moves by \<open>512 + Math.ceil(-512 / 512) * 512 = 0\<close>, the iteration ends in the state
  in which it began, and the loop runs forever on the 1024 bytes of \<open>archive_negative\<close>.
\<close>

theorem extractTar_negative_size_never_returns:
  "header_fileSize archive_negative 0 = - 512
   \<and> iteration td archive_negative (initial_state []) = Inr (Next (initial_state []))
   \<and> scan td archive_negative (initial_state []) = None
   \<and> extractTar td [] archive_negative = None"
proof -
  have s: "header_fileSize archive_negative 0 = - 512"
    using header_sizeStr_tar_header [OF a_txt_ok(1) size_minus_512_ok, of "[]" 48 "replicate 512 0"]
    by (simp add: header_fileSize_def fileSize_minus_512 archive_negative_def)
  have g: "offset (initial_state []) < int (length archive_negative) - 512"
    by (simp add: initial_state_def length_archives)
  have d: "scan td archive_negative (initial_state []) = None"
    using g iteration_negative by (rule scan_diverges)
  show ?thesis
    by (simp add: s iteration_negative d extractTar_def try_block_def)
qed

lemma iteration_backwards_first:
  "iteration td archive_backwards (initial_state []) =
     Inr (Next \<lparr>offset = 1024, processedFiles = 1,
       extractedFiles = [([97, 46, 116, 120, 116],
         \<lparr>name = [97, 46, 116, 120, 116], path = [97, 46, 116, 120, 116], size_field = 5,
          content = hello\<rparr>)]\<rparr>)"
proof -
  have a: "archive_backwards = [] @ tar_header a_txt size_5 48 @
      (hello @ replicate 507 0 @ tar_header b_name size_minus_2048 48 @ replicate 512 0)"
    by (simp add: archive_backwards_def)
  have sl: "buffer_slice archive_backwards 512 517 = hello"
    by (simp add: buffer_slice_def archive_backwards_def length_tar_header a_txt_ok size_5_ok
        hello_def)
  show ?thesis
    by (subst iteration_tar_header [OF a _ a_txt_ok(1) size_5_ok(1) a_txt_ok(2,3) size_5_ok(2)])
       (simp_all add: initial_state_def name_a_txt fileSize_5 ceil512_div emit_def
         regular_file_def endsWith_slash_def basename_def sl hello_def js_set_new_name a_txt_key)
qed

lemma iteration_backwards_second:
  "iteration td archive_backwards \<lparr>offset = 1024, processedFiles = 1, extractedFiles = fs\<rparr> =
     Inr (Next \<lparr>offset = - 512, processedFiles = 1, extractedFiles = fs\<rparr>)"
proof -
  have a: "archive_backwards = (tar_header a_txt size_5 48 @ hello @ replicate 507 0) @
      tar_header b_name size_minus_2048 48 @ replicate 512 0"
    by (simp add: archive_backwards_def)
  show ?thesis
    by (subst iteration_tar_header
          [OF a _ b_name_ok(1) size_minus_2048_ok(1) b_name_ok(2,3) size_minus_2048_ok(2)])
       (simp_all add: length_tar_header a_txt_ok size_5_ok hello_def name_b fileSize_minus_2048
         ceil512_div emit_def regular_file_def)
qed

section \<open>When \<open>extractTar\<close> raises\<close>

text \<open>
  C4.  \<open>extractTar\<close> can raise after an entry was emitted.  On \<open>archive_backwards\<close> the
  first iteration stores \<open>a.txt\<close>; the second reads the size \<open>-4000\<close> (octal), that is
  \<open>-2048\<close>, and leaves the cursor at \<open>-512\<close>; the third reads outside the buffer, and the
  \<open>RangeError\<close> is rethrown at line 785 as the error of the function.
\<close>

theorem extractTar_raises_after_emitting:
  "iteration td archive_backwards (initial_state []) =
     Inr (Next \<lparr>offset = 1024, processedFiles = 1,
       extractedFiles = [([97, 46, 116, 120, 116],
         \<lparr>name = [97, 46, 116, 120, 116], path = [97, 46, 116, 120, 116], size_field = 5,
          content = hello\<rparr>)]\<rparr>)
   \<and> iteration td archive_backwards
       \<lparr>offset = 1024, processedFiles = 1,
        extractedFiles = [([97, 46, 116, 120, 116],
         \<lparr>name = [97, 46, 116, 120, 116], path = [97, 46, 116, 120, 116], size_field = 5,
          content = hello\<rparr>)]\<rparr> =
     Inr (Next \<lparr>offset = - 512, processedFiles = 1,
       extractedFiles = [([97, 46, 116, 120, 116],
         \<lparr>name = [97, 46, 116, 120, 116], path = [97, 46, 116, 120, 116], size_field = 5,
          content = hello\<rparr>)]\<rparr>)
   \<and> iteration td archive_backwards
       \<lparr>offset = - 512, processedFiles = 1,
        extractedFiles = [([97, 46, 116, 120, 116],
         \<lparr>name = [97, 46, 116, 120, 116], path = [97, 46, 116, 120, 116], size_field = 5,
          content = hello\<rparr>)]\<rparr> = Inl RangeError
   \<and> extractTar td [] archive_backwards = Some (Inl TarExtractError)"
proof -
  let ?fs = "[([97, 46, 116, 120, 116],
         \<lparr>name = [97, 46, 116, 120, 116], path = [97, 46, 116, 120, 116], size_field = 5,
          content = hello\<rparr>)] :: (jsstring \<times> entry) list"
  have r: "iteration td archive_backwards
       \<lparr>offset = - 512, processedFiles = 1, extractedFiles = ?fs\<rparr> = Inl RangeError"
    by (rule iteration_negative_offset) simp
  have "scan td archive_backwards \<lparr>offset = - 512, processedFiles = 1, extractedFiles = ?fs\<rparr>
        = Some (Inl RangeError)"
    by (rule scan_raise [OF _ r]) (simp add: length_archives)
  then have "scan td archive_backwards \<lparr>offset = 1024, processedFiles = 1, extractedFiles = ?fs\<rparr>
        = Some (Inl RangeError)"
    by (subst scan_step [OF _ iteration_backwards_second]) (simp_all add: length_archives)
  then have "scan td archive_backwards (initial_state []) = Some (Inl RangeError)"
    by (subst scan_step [OF _ iteration_backwards_first])
       (simp_all add: length_archives initial_state_def)
  then have e: "extractTar td [] archive_backwards = Some (Inl TarExtractError)"
    by (simp add: extractTar_def try_block_def)
  show ?thesis
    by (intro conjI) (rule iteration_backwards_first, rule iteration_backwards_second, rule r, rule e)
qed

section \<open>Where the loop stops\<close>

text \<open>
  C3 (amended).  At a cursor that is not negative the loop stops, without raising and with
  the state as it is, exactly when 512 bytes or fewer remain, or the block at the cursor
  is all zero, or the decoded name is empty; in every other case the header at the
  cursor is processed: the iteration succeeds, the cursor moves by 512 plus the size
  rounded up to a multiple of 512, and the scan goes on from the new state.
\<close>

theorem scan_stops_exactly:
  assumes "0 \<le> offset st"
  shows "if int (length buf) - offset st \<le> 512
            \<or> zero_block buf (nat (offset st))
            \<or> header_fileName td buf (nat (offset st)) = []
         then scan td buf st = Some (Inr st)
         else (\<exists>st'. iteration td buf st = Inr (Next st')
                 \<and> offset st' = offset st + 512 + ceil512 (header_fileSize buf (nat (offset st)))
                 \<and> scan td buf st = scan td buf st')"
proof (cases "int (length buf) - offset st \<le> 512")
  case True
  then have "\<not> offset st < int (length buf) - 512" by simp
  then have "scan td buf st = Some (Inr st)" by (rule scan_exit)
  with True show ?thesis by simp
next
  case False
  then have g: "offset st < int (length buf) - 512" by simp
  with assms have len: "nat (offset st) + 512 \<le> length buf" by linarith
  note i = iteration_in_range [OF assms len, of td]
  show ?thesis
  proof (cases "zero_block buf (nat (offset st)) \<or> header_fileName td buf (nat (offset st)) = []")
    case True
    with i have "iteration td buf st = Inr (Break st)" by auto
    with g have "scan td buf st = Some (Inr st)" by (rule scan_break)
    with True show ?thesis by auto
  next
    case nb: False
    let ?st' = "(emit buf (header_fileName td buf (nat (offset st)))
                   (header_fileSize buf (nat (offset st))) (header_type buf (nat (offset st)))
                   (st\<lparr>offset := offset st + 512\<rparr>))
                \<lparr>offset := offset st + 512 + ceil512 (header_fileSize buf (nat (offset st)))\<rparr>"
    from nb i have n: "iteration td buf st = Inr (Next ?st')" by simp
    have "scan td buf st = scan td buf ?st'" using g n by (rule scan_step)
    with n have "\<exists>st'. iteration td buf st = Inr (Next st')
                 \<and> offset st' = offset st + 512 + ceil512 (header_fileSize buf (nat (offset st)))
                 \<and> scan td buf st = scan td buf st'"
      by (intro exI [of _ ?st']) simp
    with False nb show ?thesis by simp
  qed
qed

lemma one_block_fields:
  "\<not> zero_block archive_one_block 0" "header_fileName td archive_one_block 0 \<noteq> []"
proof -
  show "\<not> zero_block archive_one_block 0"
    using zero_block_tar_header [OF a_txt_ok(1) size_5_ok(1) a_txt_ok(2,3), of "[]" 48 "[]"]
    by (simp add: archive_one_block_def)
  show "header_fileName td archive_one_block 0 \<noteq> []"
    using header_name_tar_header [OF a_txt_ok(1,3), of "[]" size_5 48 "[]"]
    by (simp add: header_fileName_def name_a_txt archive_one_block_def)
qed

lemma hello_fields:
  "\<not> zero_block archive_hello 0" "header_fileName td archive_hello 0 \<noteq> []"
proof -
  let ?rest = "hello @ replicate 507 0 @ replicate 512 0"
  show "\<not> zero_block archive_hello 0"
    using zero_block_tar_header [OF a_txt_ok(1) size_5_ok(1) a_txt_ok(2,3), of "[]" 48 ?rest]
    by (simp add: archive_hello_def)
  show "header_fileName td archive_hello 0 \<noteq> []"
    using header_name_tar_header [OF a_txt_ok(1,3), of "[]" size_5 48 ?rest]
    by (simp add: header_fileName_def name_a_txt archive_hello_def)
qed

text \<open>
  The claim as stated lets the loop process a header when exactly 512 bytes remain.
  On a buffer that is one header block, 512 bytes remain, the block is not zero and its
  name is not empty, but the guard of line 715 fails: the loop stops at once, and
  \<open>extractTar\<close> raises.
\<close>

theorem scan_stops_exactly_counterexample:
  "\<not> int (length archive_one_block) - offset (initial_state []) < 512
   \<and> \<not> zero_block archive_one_block (nat (offset (initial_state [])))
   \<and> header_fileName unsupported archive_one_block (nat (offset (initial_state []))) \<noteq> []
   \<and> scan unsupported archive_one_block (initial_state []) = Some (Inr (initial_state []))
   \<and> extractTar unsupported [] archive_one_block = Some (Inl TarExtractError)"
proof -
  have o: "offset (initial_state []) = 0" by (simp add: initial_state_def)
  have s: "scan unsupported archive_one_block (initial_state []) = Some (Inr (initial_state []))"
    by (rule scan_exit) (simp add: o length_archives)
  have "extractTar unsupported [] archive_one_block = Some (Inl TarExtractError)"
    by (simp add: extractTar_def try_block_def s) (simp add: initial_state_def)
  with s show ?thesis
    by (simp add: o length_archives one_block_fields)
qed

theorem scan_stops_exactly_witness:
  "0 \<le> offset (initial_state [])
   \<and> int (length archive_one_block) - offset (initial_state []) \<le> 512
   \<and> scan unsupported archive_one_block (initial_state []) = Some (Inr (initial_state []))
   \<and> \<not> int (length archive_hello) - offset (initial_state []) \<le> 512
   \<and> \<not> zero_block archive_hello 0
   \<and> header_fileName unsupported archive_hello 0 \<noteq> []
   \<and> (\<exists>st'. iteration unsupported archive_hello (initial_state []) = Inr (Next st')
         \<and> offset st' = 1024
         \<and> scan unsupported archive_hello (initial_state []) = scan unsupported archive_hello st')"
proof -
  have p: "0 \<le> offset (initial_state [])"
    and o: "offset (initial_state []) = 0" "nat (offset (initial_state [])) = 0"
    by (simp_all add: initial_state_def)
  have s: "header_fileSize archive_hello 0 = 5"
    using header_sizeStr_tar_header
      [OF a_txt_ok(1) size_5_ok, of "[]" 48 "hello @ replicate 507 0 @ replicate 512 0"]
    by (simp add: header_fileSize_def fileSize_5 archive_hello_def)
  show ?thesis
    using p scan_stops_exactly [OF p, of archive_one_block unsupported]
      scan_stops_exactly [OF p, of archive_hello unsupported]
    by (simp add: o length_archives hello_fields s ceil512_div)
qed

section \<open>A scan that runs to its end\<close>

text \<open>
  When the loop ends without an exception, \<open>extractTar\<close> raises exactly when
  \<open>extractedFiles\<close> has no key; a buffer of zero bytes raises.
\<close>

lemma extractTar_complete_scan:
  assumes "scan td buf (initial_state files) = Some (Inr st)"
  shows "(extractTar td files buf = Some (Inl TarExtractError)) = (extractedFiles st = [])"
    and "extractedFiles st \<noteq> [] \<Longrightarrow> extractTar td files buf = Some (Inr (extractedFiles st))"
  using assms by (simp_all add: extractTar_def try_block_def)

lemma extractTar_zero_archive:
  assumes "list_all (\<lambda>b. b = 0) buf"
  shows "extractTar td [] buf = Some (Inl TarExtractError)"
proof -
  have "scan td buf (initial_state []) = Some (Inr (initial_state []))"
  proof (cases "offset (initial_state []) < int (length buf) - 512")
    case False
    then show ?thesis by (rule scan_exit)
  next
    case True
    then have len: "nat (offset (initial_state [])) + 512 \<le> length buf"
      by (simp add: initial_state_def)
    have "set (take 512 buf) \<subseteq> set buf" by (rule set_take_subset)
    with assms have "zero_block buf 0"
      by (auto simp add: zero_block_def list_all_iff)
    then have "iteration td buf (initial_state []) = Inr (Break (initial_state []))"
      using iteration_in_range [OF _ len, of td] by (simp add: initial_state_def)
    with True show ?thesis by (rule scan_break)
  qed
  then show ?thesis
    using extractTar_complete_scan(1) [of td buf "[]" "initial_state []"]
    by (simp add: initial_state_def)
qed

section \<open>The UTF-8 decoder on encoded strings\<close>

lemma utf8_decoder_two:
  assumes "2 \<le> a" and "a \<le> 31" and "l \<le> 63"
  shows "utf8_decoder ((0xC0 + a) # (0x80 + l) # bs) = map_option ((#) (a * 64 + l)) (utf8_decoder bs)"
  using assms by (simp add: utf8_cont_def)

lemma utf8_decoder_three:
  assumes "a \<le> 15" and "m \<le> 63" and "l \<le> 63"
    and "a = 0 \<Longrightarrow> 32 \<le> m" and "a = 13 \<Longrightarrow> m \<le> 31"
  shows "utf8_decoder ((0xE0 + a) # (0x80 + m) # (0x80 + l) # bs) =
         map_option ((#) ((a * 64 + m) * 64 + l)) (utf8_decoder bs)"
  using assms by (simp add: utf8_cont_def)

lemma utf8_decoder_four:
  assumes "a \<le> 4" and "h \<le> 63" and "m \<le> 63" and "l \<le> 63"
    and "a = 0 \<Longrightarrow> 16 \<le> h" and "a = 4 \<Longrightarrow> h \<le> 15"
  shows "utf8_decoder ((0xF0 + a) # (0x80 + h) # (0x80 + m) # (0x80 + l) # bs) =
         map_option ((#) (((a * 64 + h) * 64 + m) * 64 + l)) (utf8_decoder bs)"
  using assms by (simp add: utf8_cont_def)

lemma utf8_encode_char_bytes: "scalar_value c \<Longrightarrow> b \<in> set (utf8_encode_char c) \<Longrightarrow> b < 256"
  by (auto simp add: scalar_value_def utf8_encode_char_def split: if_splits)

lemma div_4096: "(c :: nat) div 4096 * 64 + c div 64 mod 64 = c div 64"
proof -
  have "c div 4096 = c div 64 div 64"
    using div_mult2_eq [of c 64 64] by simp
  then show ?thesis by (simp only: div_mult_mod_eq)
qed

lemma div_262144: "(c :: nat) div 262144 * 64 + c div 4096 mod 64 = c div 4096"
proof -
  have "c div 262144 = c div 4096 div 64"
    using div_mult2_eq [of c 4096 64] by simp
  then show ?thesis by (simp only: div_mult_mod_eq)
qed

lemma utf8_decoder_encode_char:
  assumes "scalar_value c"
  shows "utf8_decoder (utf8_encode_char c @ bs) = map_option ((#) c) (utf8_decoder bs)"
proof -
  have "c < 0x110000" using assms by (simp add: scalar_value_def)
  then consider "c < 0x80" | "0x80 \<le> c" "c < 0x800" | "0x800 \<le> c" "c < 0x10000"
    | "0x10000 \<le> c" "c < 0x110000"
    by linarith
  then show ?thesis
  proof cases
    case 1
    then show ?thesis by (simp add: utf8_encode_char_def)
  next
    case 2
    then have enc: "utf8_encode_char c = [0xC0 + c div 64, 0x80 + c mod 64]"
      by (simp add: utf8_encode_char_def)
    have r: "2 \<le> c div 64" "c div 64 \<le> 31" "c mod 64 \<le> 63"
      using 2 by simp_all
    have v: "c div 64 * 64 + c mod 64 = c" by simp
    show ?thesis
      using utf8_decoder_two [OF r, of bs] by (simp only: enc v append_Cons append_Nil)
  next
    case 3
    then have enc: "utf8_encode_char c =
        [0xE0 + c div 4096, 0x80 + c div 64 mod 64, 0x80 + c mod 64]"
      by (simp add: utf8_encode_char_def)
    have v: "(c div 4096 * 64 + c div 64 mod 64) * 64 + c mod 64 = c"
      by (simp only: div_4096 div_mult_mod_eq)
    have r: "c div 4096 \<le> 15" "c div 64 mod 64 \<le> 63" "c mod 64 \<le> 63"
      using 3 by simp_all
    have lo: "32 \<le> c div 64 mod 64" if "c div 4096 = 0"
    proof -
      from that have "c div 64 mod 64 = c div 64" using div_4096 [of c] by simp
      moreover have "32 \<le> c div 64" using 3 by simp
      ultimately show ?thesis by simp
    qed
    have hi: "c div 64 mod 64 \<le> 31" if "c div 4096 = 13"
    proof -
      from that have e: "c div 64 = 832 + c div 64 mod 64" using div_4096 [of c] by simp
      have "c < 57344" using that by linarith
      then have "c < 0xD800" using assms by (simp add: scalar_value_def)
      then have "c div 64 < 864" by simp
      with e show ?thesis by linarith
    qed
    show ?thesis
      using utf8_decoder_three [OF r lo hi, of bs] by (simp only: enc v append_Cons append_Nil)
  next
    case 4
    then have enc: "utf8_encode_char c =
        [0xF0 + c div 262144, 0x80 + c div 4096 mod 64, 0x80 + c div 64 mod 64, 0x80 + c mod 64]"
      by (simp add: utf8_encode_char_def)
    have v: "((c div 262144 * 64 + c div 4096 mod 64) * 64 + c div 64 mod 64) * 64 + c mod 64 = c"
      by (simp only: div_262144 div_4096 div_mult_mod_eq)
    have r: "c div 262144 \<le> 4" "c div 4096 mod 64 \<le> 63" "c div 64 mod 64 \<le> 63" "c mod 64 \<le> 63"
      using 4 by simp_all
    have lo: "16 \<le> c div 4096 mod 64" if "c div 262144 = 0"
    proof -
      from that have "c div 4096 mod 64 = c div 4096" using div_262144 [of c] by simp
      moreover have "16 \<le> c div 4096" using 4 by simp
      ultimately show ?thesis by simp
    qed
    have hi: "c div 4096 mod 64 \<le> 15" if "c div 262144 = 4"
    proof -
      from that have e: "c div 4096 = 256 + c div 4096 mod 64" using div_262144 [of c] by simp
      have "c div 4096 < 272" using 4 by simp
      with e show ?thesis by linarith
    qed
    show ?thesis
      using utf8_decoder_four [OF r lo hi, of bs] by (simp only: enc v append_Cons append_Nil)
  qed
qed

lemma utf8_decoder_encode:
  "\<forall>c\<in>set s. scalar_value c \<Longrightarrow> utf8_decoder (concat (map utf8_encode_char s)) = Some s"
  by (induction s) (simp_all add: utf8_decoder_encode_char)

lemma unat_utf8_encode:
  assumes "\<forall>c\<in>set s. scalar_value c"
  shows "map unat (utf8_encode s) = concat (map utf8_encode_char s)"
proof -
  have "unat (of_nat b :: byte) = b" if "b \<in> set (concat (map utf8_encode_char s))" for b
  proof -
    from that assms have "b < 256" by (auto dest: utf8_encode_char_bytes)
    then show ?thesis by (simp add: unat_of_nat)
  qed
  then have "map (\<lambda>b. unat (of_nat b :: byte)) (concat (map utf8_encode_char s)) =
             concat (map utf8_encode_char s)"
    by (rule map_idI)
  then show ?thesis
    by (simp add: utf8_encode_def comp_def)
qed

lemma decode_utf8_fatal_encode:
  "\<forall>c\<in>set s. scalar_value c \<Longrightarrow> decode_utf8_fatal (utf8_encode s) = Some (strip_bom s)"
  by (simp add: decode_utf8_fatal_def unat_utf8_encode utf8_decoder_encode)

lemma not_isAscii_encode:
  assumes "\<forall>c\<in>set s. scalar_value c" and "c \<in> set s" and "0x80 \<le> c"
  shows "\<not> isAscii (utf8_encode s)"
proof -
  have "0xC0 \<le> hd (utf8_encode_char c)" "hd (utf8_encode_char c) \<in> set (utf8_encode_char c)"
    using assms(3) by (simp_all add: utf8_encode_char_def)
  moreover have "set (utf8_encode_char c) \<subseteq> set (concat (map utf8_encode_char s))"
    using assms(2) by auto
  ultimately obtain b where b: "b \<in> set (concat (map utf8_encode_char s))" "0xC0 \<le> b"
    by blast
  then have "b \<in> set (map unat (utf8_encode s))"
    using assms(1) by (simp add: unat_utf8_encode)
  then obtain w where w: "w \<in> set (utf8_encode s)" "unat w = b" by auto
  with b(2) have "w > 127" by (simp add: word_less_nat_alt)
  with w(1) show ?thesis by (auto simp add: isAscii_def list_all_iff)
qed

section \<open>UTF-8 names\<close>

text \<open>
  C7 (amended).  For every string of scalar values that contains a code point above 127
  and does not begin with \<open>U+FEFF\<close>, \<open>smartDecodeFileName\<close> applied to its UTF-8 encoding
  returns the string.
\<close>

theorem smartDecodeFileName_utf8_roundtrip:
  assumes "\<forall>c\<in>set s. scalar_value c" and "\<exists>c\<in>set s. 0x80 \<le> c" and "hd s \<noteq> 0xFEFF"
  shows "smartDecodeFileName td (utf8_encode s) = s"
proof -
  from assms(2) obtain c where "c \<in> set s" "0x80 \<le> c" by blast
  with assms(1) have "\<not> isAscii (utf8_encode s)" by (rule not_isAscii_encode)
  moreover have "decode_utf8_fatal (utf8_encode s) = Some (strip_bom s)"
    using assms(1) by (rule decode_utf8_fatal_encode)
  moreover have "strip_bom s = s"
    using assms(3) by (cases s) (simp_all add: strip_bom_def)
  ultimately show ?thesis by (simp add: smartDecodeFileName_def)
qed

lemma bom_encode_char: "utf8_encode_char 0xFEFF = [0xEF, 0xBB, 0xBF]"
  by (simp add: utf8_encode_char_def)

lemma e_acute_encode_char: "utf8_encode_char 0xE9 = [0xC3, 0xA9]"
  by (simp add: utf8_encode_char_def)

lemma bom_e_acute_encode: "utf8_encode [0xFEFF, 0xE9] = [0xEF, 0xBB, 0xBF, 0xC3, 0xA9]"
  by (simp add: utf8_encode_def bom_encode_char e_acute_encode_char)

lemma bom_e_acute_not_ascii: "\<not> isAscii [0xEF, 0xBB, 0xBF, 0xC3, 0xA9]"
  by (simp add: isAscii_def)

lemma bom_e_acute_decoder: "utf8_decoder [0xEF, 0xBB, 0xBF, 0xC3, 0xA9] = Some [0xFEFF, 0xE9]"
  by (simp add: utf8_cont_def)

lemma bom_e_acute_fatal: "decode_utf8_fatal [0xEF, 0xBB, 0xBF, 0xC3, 0xA9] = Some [0xE9]"
proof -
  have "map unat [0xEF, 0xBB, 0xBF, 0xC3, 0xA9 :: byte] = [0xEF, 0xBB, 0xBF, 0xC3, 0xA9]"
    by simp
  then show ?thesis
    by (simp only: decode_utf8_fatal_def bom_e_acute_decoder) (simp add: strip_bom_def)
qed

text \<open>
  The claim as stated fails for a string that begins with \<open>U+FEFF\<close>: the decoder is
  created without \<open>ignoreBOM\<close>, so the mark is dropped and the two code points
  \<open>U+FEFF U+00E9\<close> come back as the single code point \<open>U+00E9\<close>.
\<close>

theorem smartDecodeFileName_utf8_roundtrip_counterexample:
  "scalar_value 0xFEFF \<and> scalar_value 0xE9 \<and> (0x80 :: nat) \<le> 0xE9
   \<and> utf8_encode [0xFEFF, 0xE9] = [0xEF, 0xBB, 0xBF, 0xC3, 0xA9]
   \<and> smartDecodeFileName unsupported (utf8_encode [0xFEFF, 0xE9]) = [0xE9]
   \<and> smartDecodeFileName unsupported (utf8_encode [0xFEFF, 0xE9]) \<noteq> [0xFEFF, 0xE9]"
proof -
  have r: "smartDecodeFileName unsupported (utf8_encode [0xFEFF, 0xE9]) = [0xE9]"
    by (simp only: bom_e_acute_encode smartDecodeFileName_def bom_e_acute_not_ascii
        bom_e_acute_fatal if_False option.case)
  have s: "scalar_value 0xFEFF" "scalar_value 0xE9"
    by (simp_all add: scalar_value_def)
  from r have n: "smartDecodeFileName unsupported (utf8_encode [0xFEFF, 0xE9]) \<noteq> [0xFEFF, 0xE9]"
    by simp
  have l: "(0x80 :: nat) \<le> 0xE9" by simp
  from s l bom_e_acute_encode r n show ?thesis by blast
qed

lemma sample_encode:
  "utf8_encode [0x4F60, 0x61, 0x1F600] = [0xE4, 0xBD, 0xA0, 0x61, 0xF0, 0x9F, 0x98, 0x80]"
proof -
  have "utf8_encode_char 0x4F60 = [0xE4, 0xBD, 0xA0]" "utf8_encode_char 0x61 = [0x61]"
    "utf8_encode_char 0x1F600 = [0xF0, 0x9F, 0x98, 0x80]"
    by (simp_all add: utf8_encode_char_def)
  then show ?thesis by (simp add: utf8_encode_def)
qed

theorem smartDecodeFileName_utf8_roundtrip_witness:
  "list_all scalar_value [0x4F60, 0x61, 0x1F600]
   \<and> (\<exists>c\<in>set [0x4F60, 0x61, 0x1F600 :: nat]. 0x80 \<le> c)
   \<and> hd [0x4F60, 0x61, 0x1F600 :: nat] \<noteq> 0xFEFF
   \<and> smartDecodeFileName unsupported [0xE4, 0xBD, 0xA0, 0x61, 0xF0, 0x9F, 0x98, 0x80] =
       [0x4F60, 0x61, 0x1F600]"
proof -
  have a: "\<forall>c\<in>set [0x4F60, 0x61, 0x1F600]. scalar_value c"
    by (simp add: scalar_value_def)
  have b: "\<exists>c\<in>set [0x4F60, 0x61, 0x1F600 :: nat]. 0x80 \<le> c" by simp
  have c: "hd [0x4F60, 0x61, 0x1F600 :: nat] \<noteq> 0xFEFF" by simp
  have r: "smartDecodeFileName unsupported [0xE4, 0xBD, 0xA0, 0x61, 0xF0, 0x9F, 0x98, 0x80] =
       [0x4F60, 0x61, 0x1F600]"
    using smartDecodeFileName_utf8_roundtrip [OF a b c, of unsupported]
    by (simp only: sample_encode)
  from a b c r show ?thesis by (simp only: list_all_iff) blast
qed

section \<open>ASCII names\<close>



section \<open>The stages after the UTF-8 decoder\<close>

lemma try_encodings_find:
  "try_encodings td encs bytes =
     List.find few_replacements (List.map_filter (\<lambda>encoding. td encoding bytes) encs)"
  by (induction encs) (simp_all add: map_filter_simps split: option.splits)

lemma js_length_empty: "js_length d = 0 \<longleftrightarrow> d = []"
  by (cases d) (simp_all add: js_length_def)

lemma few_replacements_iff:
  "few_replacements d \<longleftrightarrow> d \<noteq> [] \<and> 10 * replacementCount d < js_length d"
proof (cases "d = []")
  case True
  then show ?thesis by (simp add: few_replacements_def js_length_def)
next
  case False
  then have p: "0 < js_length d" using js_length_empty [of d] by simp
  then have "(real (replacementCount d) / real (js_length d) < 1 / 10)
             = (10 * real (replacementCount d) < real (js_length d))"
    by (simp add: field_simps)
  also have "\<dots> = (10 * replacementCount d < js_length d)"
    by (metis of_nat_less_iff of_nat_mult of_nat_numeral)
  finally show ?thesis using False p by (simp add: few_replacements_def)
qed

lemma try_encodings_None:
  "try_encodings td encs bytes = None \<longleftrightarrow>
     list_all (\<lambda>encoding. case td encoding bytes of None \<Rightarrow> True
                            | Some decoded \<Rightarrow> \<not> few_replacements decoded) encs"
  by (induction encs) (simp_all split: option.splits)

lemma try_encodings_Some:
  "try_encodings td encs bytes = Some d \<Longrightarrow> Some d \<in> set (map (\<lambda>encoding. td encoding bytes) encs)"
  by (induction encs) (auto split: option.splits if_splits)

lemma windows1252_char_bmp: "windows1252_char b < 0x10000"
proof (cases "unat b < 0x80 \<or> 0xA0 \<le> unat b")
  case True
  have "unat b < 256" using unsigned_less [of b] by simp
  with True show ?thesis by (simp add: windows1252_char_def)
next
  case False
  have "length windows1252_high = 32"
    by (simp add: windows1252_high_def)
  with False have "unat b - 0x80 < length windows1252_high"
    by linarith
  then have "windows1252_high ! (unat b - 0x80) \<in> set windows1252_high"
    by (rule nth_mem)
  moreover have "\<forall>x\<in>set windows1252_high. x < 0x10000"
    by (simp add: windows1252_high_def)
  ultimately show ?thesis using False by (simp add: windows1252_char_def)
qed

lemma js_length_windows1252: "js_length (decode_windows1252 bytes) = length bytes"
  by (induction bytes) (simp_all add: js_length_def decode_windows1252_def windows1252_char_bmp)

lemma gbk_bytes_not_ascii: "\<not> isAscii [0xC4, 0xE3]"
  by (simp add: isAscii_def)

lemma gbk_bytes_not_utf8: "decode_utf8_fatal [0xC4, 0xE3] = None"
  by (simp add: decode_utf8_fatal_def utf8_cont_def)

lemma gbk_bytes_windows1252: "decode_windows1252 [0xC4, 0xE3] = [0xC4, 0xE3]"
  by (simp add: decode_windows1252_def windows1252_char_def)

lemma few_replacements_ni: "few_replacements [0x4F60]"
  by (simp add: few_replacements_iff replacementCount_def js_length_def)

section \<open>The legacy encodings\<close>

lemma few_replacements_count:
  "few_replacements d \<longleftrightarrow>
     d \<noteq> [] \<and> 10 * length (filter (\<lambda>c. c = 0xFFFD) d)
                < (\<Sum>c\<leftarrow>d. if c < 0x10000 then 1 else (2 :: nat))"
  by (simp add: few_replacements_iff replacementCount_def js_length_def)

text \<open>
  C8.  For bytes that are not all ASCII and that the strict UTF-8 decoder rejects, the
  labels are tried in the order gbk, gb2312, big5, shift-jis, and the result is the first
  decoding that passes the test of line 58, or the windows-1252 decoding when there is
  none.  The test holds exactly when the decoding is not empty and ten times the number
  of its characters \<open>U+FFFD\<close> is below its length in UTF-16 code units; the empty string
  (\<open>0 / 0\<close>) fails it.  The bytes \<open>0xC4 0xE3\<close> are not ASCII and are rejected by the
  UTF-8 decoder, so when the platform's GBK decoder gives \<open>U+4F60\<close> for them, that is the
  result, and not the fallback.
\<close>

theorem smartDecodeFileName_legacy:
  assumes "\<not> isAscii bytes" and "decode_utf8_fatal bytes = None"
  shows "encodings = [''gbk'', ''gb2312'', ''big5'', ''shift-jis'']
       \<and> smartDecodeFileName td bytes =
           (case List.find few_replacements
                   (List.map_filter (\<lambda>encoding. td encoding bytes) encodings) of
              Some decoded \<Rightarrow> decoded
            | None \<Rightarrow> decode_windows1252 bytes)
       \<and> (few_replacements d \<longleftrightarrow>
             d \<noteq> [] \<and> 10 * length (filter (\<lambda>c. c = 0xFFFD) d)
                        < (\<Sum>c\<leftarrow>d. if c < 0x10000 then 1 else (2 :: nat)))
       \<and> \<not> few_replacements []
       \<and> \<not> isAscii [0xC4, 0xE3] \<and> decode_utf8_fatal [0xC4, 0xE3] = None
       \<and> (td ''gbk'' [0xC4, 0xE3] = Some [0x4F60] \<longrightarrow>
             smartDecodeFileName td [0xC4, 0xE3] = [0x4F60]
             \<and> smartDecodeFileName td [0xC4, 0xE3] \<noteq> decode_windows1252 [0xC4, 0xE3])"
proof -
  have r: "smartDecodeFileName td bs =
           (case List.find few_replacements
                   (List.map_filter (\<lambda>encoding. td encoding bs) encodings) of
              Some decoded \<Rightarrow> decoded
            | None \<Rightarrow> decode_windows1252 bs)"
    if "\<not> isAscii bs" and "decode_utf8_fatal bs = None" for bs
    using that by (simp add: smartDecodeFileName_def try_encodings_find)
  have g: "smartDecodeFileName td [0xC4, 0xE3] = [0x4F60]"
    if "td ''gbk'' [0xC4, 0xE3] = Some [0x4F60]"
    using that r [OF gbk_bytes_not_ascii gbk_bytes_not_utf8]
    by (simp add: encodings_def map_filter_simps few_replacements_ni)
  have "decode_windows1252 [0xC4, 0xE3] \<noteq> [0x4F60]"
    by (simp add: gbk_bytes_windows1252)
  with g have g': "td ''gbk'' [0xC4, 0xE3] = Some [0x4F60] \<longrightarrow>
             smartDecodeFileName td [0xC4, 0xE3] = [0x4F60]
             \<and> smartDecodeFileName td [0xC4, 0xE3] \<noteq> decode_windows1252 [0xC4, 0xE3]"
    by simp
  have e: "\<not> few_replacements []" by (simp add: few_replacements_iff)
  have n: "encodings = [''gbk'', ''gb2312'', ''big5'', ''shift-jis'']"
    by (simp add: encodings_def)
  from n r [OF assms] few_replacements_count [of d] e gbk_bytes_not_ascii gbk_bytes_not_utf8 g'
  show ?thesis by blast
qed

lemma not_ascii_ff: "\<not> isAscii [0xFF]"
  by (simp add: isAscii_def)

lemma not_utf8_ff: "decode_utf8_fatal [0xFF] = None"
  by (simp add: decode_utf8_fatal_def)

theorem smartDecodeFileName_legacy_witness:
  "\<not> isAscii [0xC4, 0xE3] \<and> decode_utf8_fatal [0xC4, 0xE3] = None
   \<and> gbk_sample ''gbk'' [0xC4, 0xE3] = Some [0x4F60]
   \<and> smartDecodeFileName gbk_sample [0xC4, 0xE3] = [0x4F60]
   \<and> \<not> isAscii [0xFF] \<and> decode_utf8_fatal [0xFF] = None
   \<and> legacy_sample ''gbk'' [0xFF] =
       Some [0x41, 0x41, 0x41, 0x41, 0x41, 0x41, 0x41, 0x41, 0x41, 0xFFFD]
   \<and> \<not> few_replacements [0x41, 0x41, 0x41, 0x41, 0x41, 0x41, 0x41, 0x41, 0x41, 0xFFFD]
   \<and> legacy_sample ''gb2312'' [0xFF] = Some []
   \<and> legacy_sample ''big5'' [0xFF] = Some [0xFFFD, 0x1F600, 0x1F600, 0x1F600, 0x1F600, 0x1F600]
   \<and> few_replacements [0xFFFD, 0x1F600, 0x1F600, 0x1F600, 0x1F600, 0x1F600]
   \<and> \<not> few_replacements [0xFFFD, 0x41, 0x41, 0x41, 0x41, 0x41]
   \<and> legacy_sample ''shift-jis'' [0xFF] = Some [0x42]
   \<and> smartDecodeFileName legacy_sample [0xFF] =
       [0xFFFD, 0x1F600, 0x1F600, 0x1F600, 0x1F600, 0x1F600]"
proof -
  have s: "gbk_sample ''gbk'' [0xC4, 0xE3] = Some [0x4F60]"
    by (simp add: gbk_sample_def)
  from smartDecodeFileName_legacy [OF gbk_bytes_not_ascii gbk_bytes_not_utf8, of gbk_sample] s
  have a: "smartDecodeFileName gbk_sample [0xC4, 0xE3] = [0x4F60]"
    by blast
  note t = smartDecodeFileName_legacy [OF not_ascii_ff not_utf8_ff, of legacy_sample]
  have l: "legacy_sample ''gbk'' [0xFF] =
       Some [0x41, 0x41, 0x41, 0x41, 0x41, 0x41, 0x41, 0x41, 0x41, 0xFFFD]"
    "legacy_sample ''gb2312'' [0xFF] = Some []"
    "legacy_sample ''big5'' [0xFF] = Some [0xFFFD, 0x1F600, 0x1F600, 0x1F600, 0x1F600, 0x1F600]"
    "legacy_sample ''shift-jis'' [0xFF] = Some [0x42]"
    by (simp_all add: legacy_sample_def)
  from t [of "[0x41, 0x41, 0x41, 0x41, 0x41, 0x41, 0x41, 0x41, 0x41, 0xFFFD]"]
  have f1: "\<not> few_replacements [0x41, 0x41, 0x41, 0x41, 0x41, 0x41, 0x41, 0x41, 0x41, 0xFFFD]"
    by simp
  from t [of "[0xFFFD, 0x1F600, 0x1F600, 0x1F600, 0x1F600, 0x1F600]"]
  have f2: "few_replacements [0xFFFD, 0x1F600, 0x1F600, 0x1F600, 0x1F600, 0x1F600]"
    by simp
  from t [of "[0xFFFD, 0x41, 0x41, 0x41, 0x41, 0x41]"]
  have f3: "\<not> few_replacements [0xFFFD, 0x41, 0x41, 0x41, 0x41, 0x41]"
    by simp
  from t [of "[]"] have f0: "\<not> few_replacements []" by blast
  from t [of "[]"]
  have "smartDecodeFileName legacy_sample [0xFF] =
           (case List.find few_replacements
                   (List.map_filter (\<lambda>encoding. legacy_sample encoding [0xFF]) encodings) of
              Some decoded \<Rightarrow> decoded
            | None \<Rightarrow> decode_windows1252 [0xFF])"
    by blast
  then have b: "smartDecodeFileName legacy_sample [0xFF] =
       [0xFFFD, 0x1F600, 0x1F600, 0x1F600, 0x1F600, 0x1F600]"
    by (simp add: encodings_def map_filter_simps l f0 f1 f2)
  show ?thesis
    by (intro conjI) (rule gbk_bytes_not_ascii, rule gbk_bytes_not_utf8, rule s, rule a,
      rule not_ascii_ff, rule not_utf8_ff, rule l(1), rule f1, rule l(2), rule l(3), rule f2,
      rule f3, rule l(4), rule b)
qed

section \<open>Totality and the last resort\<close>

text \<open>
  C9.  \<open>smartDecodeFileName\<close> returns a string for every byte sequence, and that string is
  the result of one of its four stages: the windows-1252 decoding (the labels \<open>ascii\<close>
  and \<open>latin1\<close>), the strict UTF-8 decoding, or the decoding of one of the legacy labels.
  When the bytes are not all ASCII, the strict UTF-8 decoder rejects them and no legacy
  decoding is accepted, the result is the decoding of \<open>TextDecoder('latin1')\<close>, which has
  one code point for each byte, so its length is the number of bytes.
\<close>

theorem smartDecodeFileName_total:
  "(smartDecodeFileName td bytes = decode_windows1252 bytes
      \<or> decode_utf8_fatal bytes = Some (smartDecodeFileName td bytes)
      \<or> Some (smartDecodeFileName td bytes) \<in> set (map (\<lambda>encoding. td encoding bytes) encodings))
   \<and> (\<not> isAscii bytes \<and> decode_utf8_fatal bytes = None
       \<and> list_all (\<lambda>encoding. case td encoding bytes of None \<Rightarrow> True
                               | Some decoded \<Rightarrow> \<not> few_replacements decoded) encodings
       \<longrightarrow> smartDecodeFileName td bytes = decode_windows1252 bytes)
   \<and> js_length (decode_windows1252 bytes) = length bytes
   \<and> length (decode_windows1252 bytes) = length bytes"
proof -
  have a: "smartDecodeFileName td bytes = decode_windows1252 bytes
      \<or> decode_utf8_fatal bytes = Some (smartDecodeFileName td bytes)
      \<or> Some (smartDecodeFileName td bytes) \<in> set (map (\<lambda>encoding. td encoding bytes) encodings)"
  proof (cases "try_encodings td encodings bytes")
    case None
    then show ?thesis by (simp add: smartDecodeFileName_def split: option.splits)
  next
    case (Some d)
    then have "Some d \<in> set (map (\<lambda>encoding. td encoding bytes) encodings)"
      by (rule try_encodings_Some)
    with Some show ?thesis by (simp add: smartDecodeFileName_def split: option.splits)
  qed
  have b: "\<not> isAscii bytes \<and> decode_utf8_fatal bytes = None
       \<and> list_all (\<lambda>encoding. case td encoding bytes of None \<Rightarrow> True
                               | Some decoded \<Rightarrow> \<not> few_replacements decoded) encodings
       \<longrightarrow> smartDecodeFileName td bytes = decode_windows1252 bytes"
    by (simp add: smartDecodeFileName_def try_encodings_None [symmetric])
  have c: "length (decode_windows1252 bytes) = length bytes"
    by (simp add: decode_windows1252_def)
  from a b c js_length_windows1252 [of bytes] show ?thesis by blast
qed

theorem smartDecodeFileName_total_witness:
  "\<not> isAscii [0xFF] \<and> decode_utf8_fatal [0xFF] = None
   \<and> list_all (\<lambda>encoding. case gbk_sample encoding [0xFF] of None \<Rightarrow> True
                               | Some decoded \<Rightarrow> \<not> few_replacements decoded) encodings
   \<and> smartDecodeFileName gbk_sample [0xFF] = [0xFF]
   \<and> js_length (smartDecodeFileName gbk_sample [0xFF]) = 1"
proof -
  have a: "\<not> isAscii [0xFF]" by (simp add: isAscii_def)
  have b: "decode_utf8_fatal [0xFF] = None" by (simp add: decode_utf8_fatal_def)
  have "\<not> few_replacements [0xFFFD]"
    by (simp add: few_replacements_iff replacementCount_def js_length_def)
  then have c: "list_all (\<lambda>encoding. case gbk_sample encoding [0xFF] of None \<Rightarrow> True
                               | Some decoded \<Rightarrow> \<not> few_replacements decoded) encodings"
    by (simp add: gbk_sample_def encodings_def)
  have d: "decode_windows1252 [0xFF] = [0xFF]"
    by (simp add: decode_windows1252_def windows1252_char_def)
  from a b c smartDecodeFileName_total [of gbk_sample "[0xFF]"] show ?thesis
    by (simp add: d js_length_def)
qed

end
